(* ===== verification/Prelude.thy ===== *)
theory Prelude
  imports Main "HOL-Library.Word"
begin

unbundle bit_operations_syntax

text \<open>
  Shared vocabulary of the development: the machine-integer and byte types of the Rust sources,
  the byte orders the code uses, the two ways a Rust computation can end (a value or a panic),
  and the generic lemmas on words, lists and maps that the component theories rely on.
\<close>

section \<open>Types\<close>

type_synonym u8 = "8 word"
type_synonym u16 = "16 word"
type_synonym u32 = "32 word"
type_synonym u128 = "128 word"
type_synonym bytes = "u8 list"

text \<open>
  A Rust computation that may panic. A \<^verbatim>\<open>Result\<close> is a sum, with \<open>Inl\<close> for \<^verbatim>\<open>Err\<close>
  and \<open>Inr\<close> for \<^verbatim>\<open>Ok\<close>; a panic is not a \<^verbatim>\<open>Result\<close> and gets a type of its own.
\<close>

datatype 'a outcome = Done 'a | Panic string

fun bind_outcome :: "'a outcome \<Rightarrow> ('a \<Rightarrow> 'b outcome) \<Rightarrow> 'b outcome" where
  "bind_outcome (Done x) f = f x"
| "bind_outcome (Panic m) f = Panic m"

definition panics :: "'a outcome \<Rightarrow> bool" where
  "panics r = (case r of Done _ \<Rightarrow> False | Panic _ \<Rightarrow> True)"

definition is_ok :: "'e + 'a \<Rightarrow> bool" where
  "is_ok r = (case r of Inl _ \<Rightarrow> False | Inr _ \<Rightarrow> True)"

abbreviation is_err :: "'e + 'a \<Rightarrow> bool" where
  "is_err r \<equiv> \<not> is_ok r"

text \<open>
  \<open>be_bytes n x\<close> is the network (big-endian) byte order, what \<^verbatim>\<open>octets()\<close> and
  \<^verbatim>\<open>to_be_bytes\<close> return; \<open>from_be_bytes\<close> and \<open>from_le_bytes\<close> read a byte sequence.
\<close>

definition be_bytes :: "nat \<Rightarrow> 'a::len word \<Rightarrow> bytes" where
  "be_bytes n x = map (\<lambda>i. ucast (drop_bit (8 * (n - 1 - i)) x)) [0..<n]"

definition from_be_bytes :: "bytes \<Rightarrow> 'a::len word" where
  "from_be_bytes bs = foldl (\<lambda>acc b. push_bit 8 acc OR ucast b) 0 bs"

definition from_le_bytes :: "bytes \<Rightarrow> 'a::len word" where
  "from_le_bytes bs = foldr (\<lambda>b acc. push_bit 8 acc OR ucast b) bs 0"

text \<open>Writing a block of bytes over the front of a buffer (\<^verbatim>\<open>copy_from_slice\<close> on a prefix).\<close>

definition overwrite_front :: "'a list \<Rightarrow> 'a list \<Rightarrow> 'a list" where
  "overwrite_front xs buf = xs @ drop (length xs) buf"

section \<open>Collections of rewrite rules\<close>

named_theorems outcome_simps \<open>evaluation of outcomes and results\<close>
named_theorems byte_simps \<open>evaluation of byte sequences\<close>
named_theorems mask_simps \<open>prefix masks and their complements\<close>

section \<open>Outcomes and results\<close>

lemma panics_simps [simp, outcome_simps]:
  "\<not> panics (Done x)" "panics (Panic m)"
  by (simp_all add: panics_def)

lemma is_ok_simps [simp, outcome_simps]:
  "is_ok (Inr x)" "\<not> is_ok (Inl e)"
  by (simp_all add: is_ok_def)

lemma is_ok_iff: "is_ok r \<longleftrightarrow> (\<exists>x. r = Inr x)"
  by (cases r) auto

lemma is_ok_unit: "is_ok r \<longleftrightarrow> r = Inr ()"
  by (cases r) auto

lemma bind_outcome_Done_iff:
  "bind_outcome r f = Done y \<longleftrightarrow> (\<exists>x. r = Done x \<and> f x = Done y)"
  by (cases r) auto

lemma Done_bind_outcome_iff:
  "Done y = bind_outcome r f \<longleftrightarrow> (\<exists>x. r = Done x \<and> f x = Done y)"
  by (cases r) auto

lemma bind_outcome_Panic_iff:
  "bind_outcome r f = Panic m \<longleftrightarrow> r = Panic m \<or> (\<exists>x. r = Done x \<and> f x = Panic m)"
  by (cases r) auto

section \<open>Byte sequences\<close>

lemma length_be_bytes [simp, byte_simps]: "length (be_bytes n x) = n"
  by (simp add: be_bytes_def)

lemma nth_be_bytes: "i < n \<Longrightarrow> be_bytes n x ! i = ucast (drop_bit (8 * (n - 1 - i)) x)"
  by (simp add: be_bytes_def)

lemma bit_be_bytes:
  fixes x :: "'a::len word"
  assumes "LENGTH('a) = 8 * n" and "k < 8 * n"
  shows "bit x k \<longleftrightarrow> bit (be_bytes n x ! (n - 1 - k div 8)) (k mod 8)"
proof -
  have kn: "k div 8 < n"
    using assms(2) by (simp add: less_mult_imp_div_less mult.commute)
  then have "n - 1 - (n - 1 - k div 8) = k div 8" and "n - 1 - k div 8 < n"
    by simp_all
  moreover have "8 * (k div 8) + k mod 8 = k"
    by simp
  ultimately show ?thesis
    using assms by (simp add: nth_be_bytes bit_simps)
qed

lemma be_bytes_inject:
  fixes x y :: "'a::len word"
  assumes len: "LENGTH('a) = 8 * n"
  shows "be_bytes n x = be_bytes n y \<longleftrightarrow> x = y"
proof
  assume eq: "be_bytes n x = be_bytes n y"
  show "x = y"
  proof (rule bit_word_eqI)
    fix k assume "k < LENGTH('a)"
    with len have "k < 8 * n" by simp
    with len eq show "bit x k \<longleftrightarrow> bit y k"
      by (simp add: bit_be_bytes [where n = n])
  qed
qed simp

lemma drop_bit_split:
  fixes y :: "'a::len word"
  assumes "8 \<le> LENGTH('a)"
  shows "push_bit 8 (drop_bit 8 y) OR ucast (ucast y :: u8) = y"
  by (rule bit_word_eqI) (use assms in \<open>auto simp: bit_simps\<close>)

lemma from_be_bytes_take:
  fixes x :: "'a::len word"
  assumes len: "LENGTH('a) = 8 * n" and "k \<le> n"
  shows "foldl (\<lambda>acc b. push_bit 8 acc OR ucast b) 0
    (map (\<lambda>i. ucast (drop_bit (8 * (n - 1 - i)) x) :: u8) [0..<k]) = drop_bit (8 * (n - k)) x"
  using assms(2)
proof (induction k)
  case 0
  show ?case by (rule bit_word_eqI) (use len in \<open>auto simp: bit_simps dest: bit_imp_le_length\<close>)
next
  case (Suc k)
  let ?y = "drop_bit (8 * (n - Suc k)) x"
  have "8 * (n - k) = 8 + 8 * (n - Suc k)"
    using Suc.prems by simp
  then have "drop_bit (8 * (n - k)) x = drop_bit 8 ?y"
    by simp
  moreover have "push_bit 8 (drop_bit 8 ?y) OR ucast (ucast ?y :: u8) = ?y"
    by (rule drop_bit_split) (use len Suc.prems in simp)
  ultimately show ?case
    using Suc by (simp del: drop_bit_drop_bit)
qed

lemma from_be_bytes_be_bytes:
  fixes x :: "'a::len word"
  assumes "LENGTH('a) = 8 * n"
  shows "from_be_bytes (be_bytes n x) = x"
  using from_be_bytes_take [OF assms order_refl, of x]
  by (simp add: from_be_bytes_def be_bytes_def)

lemma bit_from_be_bytes:
  assumes "8 * length bs \<le> LENGTH('a::len)"
  shows "bit (from_be_bytes bs :: 'a word) k \<longleftrightarrow> k < 8 * length bs \<and> bit (rev bs ! (k div 8)) (k mod 8)"
  using assms
proof (induction bs arbitrary: k rule: rev_induct)
  case Nil
  then show ?case by (simp add: from_be_bytes_def)
next
  case (snoc b bs)
  have f: "(from_be_bytes (bs @ [b]) :: 'a word) = push_bit 8 (from_be_bytes bs) OR ucast b"
    by (simp add: from_be_bytes_def)
  show ?case
  proof (cases "k < 8")
    case True
    then show ?thesis
      unfolding f using snoc.prems by (auto simp: bit_simps)
  next
    case False
    then have k: "k div 8 = Suc ((k - 8) div 8)" "k mod 8 = (k - 8) mod 8"
      by (simp_all add: le_div_geq le_mod_geq)
    have "\<not> bit b k" using False by (auto dest: bit_imp_le_length)
    moreover have "8 * length bs \<le> LENGTH('a)" using snoc.prems by simp
    ultimately show ?thesis
      unfolding f using False snoc.IH [of "k - 8"] snoc.prems k
      by (auto simp: bit_simps)
  qed
qed

lemma be_bytes_from_be_bytes:
  assumes "length bs = n" and "LENGTH('a::len) = 8 * n"
  shows "be_bytes n (from_be_bytes bs :: 'a word) = bs"
proof (rule nth_equalityI)
  fix i assume "i < length (be_bytes n (from_be_bytes bs :: 'a word))"
  then have i: "i < n" by simp
  show "be_bytes n (from_be_bytes bs :: 'a word) ! i = bs ! i"
  proof (rule bit_word_eqI)
    fix j assume "j < LENGTH(8)"
    then have j: "j < 8" by simp
    have k: "(8 * (n - Suc i) + j) div 8 = n - Suc i" "(8 * (n - Suc i) + j) mod 8 = j"
      using j by simp_all
    have "8 * (n - Suc i) + j < 8 * n"
      using i j by linarith
    then show "bit (be_bytes n (from_be_bytes bs :: 'a word) ! i) j = bit (bs ! i) j"
      using i j assms bit_from_be_bytes [of bs "8 * (n - Suc i) + j", where 'a = 'a]
      by (simp add: nth_be_bytes bit_simps k rev_nth)
  qed
qed (use assms in simp)

lemma length_overwrite_front:
  "length xs \<le> length buf \<Longrightarrow> length (overwrite_front xs buf) = length buf"
  by (simp add: overwrite_front_def)

lemma drop_overwrite_front [simp, byte_simps]:
  "drop (length xs) (overwrite_front xs buf) = drop (length xs) buf"
  by (simp add: overwrite_front_def)

lemma take_overwrite_front [simp, byte_simps]:
  "take (length xs) (overwrite_front xs buf) = xs"
  by (simp add: overwrite_front_def)

lemma take_drop_nth: "j + k \<le> length xs \<Longrightarrow> take k (drop j xs) = map ((!) xs) [j..<j + k]"
  by (simp add: list_eq_iff_nth_eq)

lemma take_nth: "k \<le> length xs \<Longrightarrow> take k xs = map ((!) xs) [0..<k]"
  by (simp add: list_eq_iff_nth_eq)

lemma take_split: "m \<le> n \<Longrightarrow> take n xs = take m xs @ take (n - m) (drop m xs)"
  by (metis le_add_diff_inverse take_add)

section \<open>Prefix masks\<close>

text \<open>
  A network of prefix length \<open>p\<close> in a \<open>w\<close>-bit address has the bits from \<open>w - p\<close> upwards as
  its network part, so its mask is \<open>NOT (mask (w - p))\<close>.
\<close>

lemma bit_net_mask [mask_simps]:
  fixes a :: "'a::len word"
  shows "bit (a AND NOT (mask k)) n \<longleftrightarrow> bit a n \<and> k \<le> n"
  by (auto simp: bit_simps dest: bit_imp_le_length)

lemma net_mask_mono:
  fixes a b :: "'a::len word"
  assumes "a AND NOT (mask j) = b AND NOT (mask j)" and "j \<le> k"
  shows "a AND NOT (mask k) = b AND NOT (mask k)"
proof (rule bit_word_eqI)
  fix n assume "n < LENGTH('a)"
  have "bit (a AND NOT (mask j)) n \<longleftrightarrow> bit (b AND NOT (mask j)) n"
    using assms(1) by simp
  with assms(2) show "bit (a AND NOT (mask k)) n \<longleftrightarrow> bit (b AND NOT (mask k)) n"
    by (auto simp: bit_net_mask)
qed

lemma net_mask_idem [simp, mask_simps]:
  fixes a :: "'a::len word"
  shows "(a AND NOT (mask k)) AND NOT (mask k) = a AND NOT (mask k)"
  by (rule bit_word_eqI) (auto simp: bit_simps)

lemma net_mask_join [simp, mask_simps]:
  fixes a e :: "'a::len word"
  shows "(a AND NOT (mask k) OR e AND mask k) AND NOT (mask k) = a AND NOT (mask k)"
  by (rule bit_word_eqI) (auto simp: bit_simps)

section \<open>Maps\<close>

lemma map_upd_the: "m k = Some v \<Longrightarrow> m(k \<mapsto> v) = m"
  by (rule map_upd_triv)

end
