(* ===== verification/Net.thy ===== *)
theory Net
  imports Prelude
begin

text \<open>
  Internet addresses of the Rust standard library (\<^verbatim>\<open>std::net\<close>) and the networks of the
  \<^verbatim>\<open>ipnet\<close> crate. The addresses are modelled; the operations of the crate are a parameter
  \<open>ipnet_api\<close> of every definition that calls them, with what its documentation promises in the
  locale \<open>ipnet_contract\<close>.
\<close>

section \<open>Addresses\<close>

datatype ip_addr = V4 u32 | V6 u128

fun is_unspecified :: "ip_addr \<Rightarrow> bool" where
  "is_unspecified (V4 a) = (a = 0)"
| "is_unspecified (V6 a) = (a = 0)"

fun is_ipv6 :: "ip_addr \<Rightarrow> bool" where
  "is_ipv6 (V4 a) = False"
| "is_ipv6 (V6 a) = True"

definition octets4 :: "u32 \<Rightarrow> bytes" where
  "octets4 a = be_bytes 4 a"

definition octets6 :: "u128 \<Rightarrow> bytes" where
  "octets6 a = be_bytes 16 a"

section \<open>Networks\<close>

text \<open>An address together with a prefix length; the address may have host bits set.\<close>

datatype ipv4_net = Ipv4Net (addr4: u32) (prefix_len4: nat)
datatype ipv6_net = Ipv6Net (addr6: u128) (prefix_len6: nat)
datatype ip_net = NetV4 ipv4_net | NetV6 ipv6_net

fun net_addr :: "ip_net \<Rightarrow> ip_addr" where
  "net_addr (NetV4 n) = V4 (addr4 n)"
| "net_addr (NetV6 n) = V6 (addr6 n)"

fun net_prefix_len :: "ip_net \<Rightarrow> nat" where
  "net_prefix_len (NetV4 n) = prefix_len4 n"
| "net_prefix_len (NetV6 n) = prefix_len6 n"

text \<open>The prefix lengths that the crate's constructors accept.\<close>

fun wf_net :: "ip_net \<Rightarrow> bool" where
  "wf_net (NetV4 n) = (prefix_len4 n \<le> 32)"
| "wf_net (NetV6 n) = (prefix_len6 n \<le> 128)"

text \<open>\<^verbatim>\<open>IpNet::new_assert\<close>: pairs an address with a prefix length of its family.\<close>

fun net_of_addr :: "ip_addr \<Rightarrow> nat \<Rightarrow> ip_net" where
  "net_of_addr (V4 a) p = NetV4 (Ipv4Net a p)"
| "net_of_addr (V6 a) p = NetV6 (Ipv6Net a p)"

text \<open>The operations of the \<^verbatim>\<open>ipnet\<close> crate that the sources call.\<close>

record ipnet_api =
  net_trunc :: "ip_net \<Rightarrow> ip_net"
  netmask4 :: "ipv4_net \<Rightarrow> u32"
  broadcast4 :: "ipv4_net \<Rightarrow> u32"
  netmask6 :: "ipv6_net \<Rightarrow> u128"
  net_contains :: "ip_net \<Rightarrow> ip_net \<Rightarrow> bool"
  net_parse :: "string \<Rightarrow> ip_net option"
  net_to_string :: "ip_net \<Rightarrow> string"

section \<open>What the crate promises\<close>

lemma ip_net_cases [case_names V4 V6]:
  obtains (V4) a p where "n = NetV4 (Ipv4Net a p)" | (V6) b q where "n = NetV6 (Ipv6Net b q)"
  by (metis ip_net.exhaust ipv4_net.exhaust ipv6_net.exhaust)

locale ipnet_contract =
  fixes ipn :: ipnet_api
  assumes netmask4: "p \<le> 32 \<Longrightarrow> netmask4 ipn (Ipv4Net a p) = NOT (mask (32 - p))"
    and netmask6: "q \<le> 128 \<Longrightarrow> netmask6 ipn (Ipv6Net b q) = NOT (mask (128 - q))"
    and broadcast4: "p \<le> 32 \<Longrightarrow> broadcast4 ipn (Ipv4Net a p) = a OR mask (32 - p)"
    and trunc4: "p \<le> 32 \<Longrightarrow>
      net_trunc ipn (NetV4 (Ipv4Net a p)) = NetV4 (Ipv4Net (a AND NOT (mask (32 - p))) p)"
    and trunc6: "q \<le> 128 \<Longrightarrow>
      net_trunc ipn (NetV6 (Ipv6Net b q)) = NetV6 (Ipv6Net (b AND NOT (mask (128 - q))) q)"
    and contains4: "p \<le> 32 \<Longrightarrow> p' \<le> 32 \<Longrightarrow>
      net_contains ipn (NetV4 (Ipv4Net a p)) (NetV4 (Ipv4Net a' p')) \<longleftrightarrow>
        p \<le> p' \<and> a AND NOT (mask (32 - p)) = a' AND NOT (mask (32 - p))"
    and contains6: "q \<le> 128 \<Longrightarrow> q' \<le> 128 \<Longrightarrow>
      net_contains ipn (NetV6 (Ipv6Net b q)) (NetV6 (Ipv6Net b' q')) \<longleftrightarrow>
        q \<le> q' \<and> b AND NOT (mask (128 - q)) = b' AND NOT (mask (128 - q))"
    and contains_mixed:
      "\<not> net_contains ipn (NetV4 n4) (NetV6 n6)" "\<not> net_contains ipn (NetV6 n6) (NetV4 n4)"
    and parse_to_string: "wf_net n \<Longrightarrow> net_parse ipn (net_to_string ipn n) = Some n"
    and parse_wf: "net_parse ipn s = Some n \<Longrightarrow> wf_net n"
begin

lemmas ipnet_ops = netmask4 netmask6 broadcast4 trunc4 trunc6 contains4 contains6 contains_mixed

lemma trunc_wf: "wf_net n \<Longrightarrow> wf_net (net_trunc ipn n)"
  by (cases n rule: ip_net_cases) (auto simp: trunc4 trunc6)

lemma trunc_prefix_len: "wf_net n \<Longrightarrow> net_prefix_len (net_trunc ipn n) = net_prefix_len n"
  by (cases n rule: ip_net_cases) (auto simp: trunc4 trunc6)

lemma trunc_idem: "wf_net n \<Longrightarrow> net_trunc ipn (net_trunc ipn n) = net_trunc ipn n"
  by (cases n rule: ip_net_cases) (auto simp: trunc4 trunc6)

lemma contains_refl: "wf_net n \<Longrightarrow> net_contains ipn n n"
  by (cases n rule: ip_net_cases) (auto simp: contains4 contains6)

lemma contains_trans:
  assumes "wf_net a" "wf_net b" "wf_net c" "net_contains ipn a b" "net_contains ipn b c"
  shows "net_contains ipn a c"
  using assms
  by (cases a rule: ip_net_cases; cases b rule: ip_net_cases; cases c rule: ip_net_cases)
    (auto simp: contains4 contains6 contains_mixed dest: net_mask_mono [OF _ diff_le_mono2])

end

section \<open>Accessors\<close>

lemma net_of_addr_simps [simp]:
  "net_addr (net_of_addr a p) = a" "net_prefix_len (net_of_addr a p) = p"
  by (cases a; simp)+

lemma net_of_addr_addr [simp]: "net_of_addr (net_addr n) (net_prefix_len n) = n"
  by (cases n) (simp_all)

lemma length_octets [simp, byte_simps]: "length (octets4 a) = 4" "length (octets6 b) = 16"
  by (simp_all add: octets4_def octets6_def)

lemma octets4_inject: "octets4 a = octets4 b \<longleftrightarrow> a = b"
  unfolding octets4_def by (rule be_bytes_inject) simp

lemma octets6_inject: "octets6 a = octets6 b \<longleftrightarrow> a = b"
  unfolding octets6_def by (rule be_bytes_inject) simp

end
