(* ===== verification/Text_Format.thy ===== *)
theory Text_Format
  imports Net
begin

text \<open>
  The part of \<^verbatim>\<open>std::fmt\<close> that the sources' messages and reports use: decimal and hexadecimal
  numbers, the \<^verbatim>\<open>Display\<close> of IPv4 and IPv6 addresses, and ASCII lower-casing.
\<close>

section \<open>Numbers\<close>

definition digit_char :: "nat \<Rightarrow> char" where
  "digit_char d = (if d < 10 then char_of (48 + d) else char_of (87 + d))"

fun digits_in :: "nat \<Rightarrow> nat \<Rightarrow> string" where
  "digits_in b n =
     (if n < b \<or> b < 2 then [digit_char n] else digits_in b (n div b) @ [digit_char (n mod b)])"

declare digits_in.simps [simp del]

definition show_nat :: "nat \<Rightarrow> string" where
  "show_nat n = digits_in 10 n"

definition show_hex :: "nat \<Rightarrow> string" where
  "show_hex n = digits_in 16 n"

text \<open>\<^verbatim>\<open>{:04x}\<close>\<close>

definition show_hex4 :: "nat \<Rightarrow> string" where
  "show_hex4 n = (let s = show_hex n in replicate (4 - length s) (CHR ''0'') @ s)"

text \<open>The text between single quotation marks.\<close>

definition single_quoted :: "string \<Rightarrow> string" where
  "single_quoted s = CHR 0x27 # s @ [CHR 0x27]"

section \<open>Addresses\<close>

fun join_with :: "string \<Rightarrow> string list \<Rightarrow> string" where
  "join_with sep [] = []"
| "join_with sep [x] = x"
| "join_with sep (x # y # xs) = x @ sep @ join_with sep (y # xs)"

definition show_ipv4 :: "u32 \<Rightarrow> string" where
  "show_ipv4 a = join_with ''.'' (map (\<lambda>b. show_nat (unat b)) (octets4 a))"

definition segments6 :: "u128 \<Rightarrow> nat list" where
  "segments6 a = map (\<lambda>i. unat (drop_bit (16 * (7 - i)) a AND mask 16)) [0..<8]"

text \<open>
  The first longest run of zero segments, as \<open>(start, length)\<close>: a scan that keeps the current
  run and the longest one seen.
\<close>

fun zero_run :: "nat \<Rightarrow> nat list \<Rightarrow> nat \<times> nat \<Rightarrow> nat \<times> nat \<Rightarrow> nat \<times> nat" where
  "zero_run i [] cur best = best"
| "zero_run i (s # ss) cur best =
     (if s = 0 then
        let cur' = (if snd cur = 0 then (i, 1) else (fst cur, snd cur + 1))
        in zero_run (Suc i) ss cur' (if snd best < snd cur' then cur' else best)
      else zero_run (Suc i) ss (0, 0) best)"

definition show_ipv6 :: "u128 \<Rightarrow> string" where
  "show_ipv6 a =
     (let segs = segments6 a; show_segs = (\<lambda>ss. join_with '':'' (map show_hex ss));
          (start, len) = zero_run 0 segs (0, 0) (0, 0)
      in if drop_bit 32 a = 0xffff then ''::ffff:'' @ show_ipv4 (ucast a)
         else if 1 < len then
           show_segs (take start segs) @ ''::'' @ show_segs (drop (start + len) segs)
         else show_segs segs)"

fun show_ip :: "ip_addr \<Rightarrow> string" where
  "show_ip (V4 a) = show_ipv4 a"
| "show_ip (V6 a) = show_ipv6 a"

section \<open>ASCII case\<close>

definition ascii_lower :: "char \<Rightarrow> char" where
  "ascii_lower c =
     (let n = (of_char c :: nat) in if 65 \<le> n \<and> n \<le> 90 then char_of (n + 32) else c)"

definition to_ascii_lowercase :: "string \<Rightarrow> string" where
  "to_ascii_lowercase s = map ascii_lower s"

text \<open>A string that \<^verbatim>\<open>to_ascii_lowercase\<close> leaves alone.\<close>

definition is_lowercase :: "string \<Rightarrow> bool" where
  "is_lowercase s = (to_ascii_lowercase s = s)"

section \<open>Facts\<close>

lemma digits_in_not_Nil [simp]: "digits_in b n \<noteq> []"
  by (subst digits_in.simps) simp

lemma of_char_lower: "n \<le> 90 \<Longrightarrow> (of_char (char_of (n + 32 :: nat)) :: nat) = n + 32"
  unfolding of_char_of by (rule mod_less) linarith
lemma ascii_lower_idem [simp]: "ascii_lower (ascii_lower c) = ascii_lower c"
proof (cases "65 \<le> (of_char c :: nat) \<and> (of_char c :: nat) \<le> 90")
  case True
  then have l: "ascii_lower c = char_of (of_char c + 32 :: nat)"
    unfolding ascii_lower_def Let_def by (rule if_P)
  have "(of_char (ascii_lower c) :: nat) = of_char c + 32"
    unfolding l using True by (intro of_char_lower) blast
  with True have "\<not> (65 \<le> (of_char (ascii_lower c) :: nat) \<and> (of_char (ascii_lower c) :: nat) \<le> 90)"
    by linarith
  then show ?thesis
    unfolding ascii_lower_def [of "ascii_lower c"] Let_def by (rule if_not_P)
next
  case False
  then have "ascii_lower c = c"
    unfolding ascii_lower_def Let_def by (rule if_not_P)
  then show ?thesis by (rule arg_cong)
qed

lemma to_ascii_lowercase_idem [simp]:
  "to_ascii_lowercase (to_ascii_lowercase s) = to_ascii_lowercase s"
  by (simp add: to_ascii_lowercase_def)

lemma to_ascii_lowercase_append:
  "to_ascii_lowercase (s @ t) = to_ascii_lowercase s @ to_ascii_lowercase t"
  by (simp add: to_ascii_lowercase_def)

lemma is_lowercase_lower [simp]: "is_lowercase (to_ascii_lowercase s)"
  by (simp add: is_lowercase_def)

end
