(* ===== verification/Errors.thy ===== *)
theory Errors
  imports Text_Format
begin

text \<open>
  Error values (\<^verbatim>\<open>src/error.rs\<close>, \<^verbatim>\<open>src/osal/tun/error.rs\<close>): the I/O errors of the standard
  library, the \<^verbatim>\<open>ThinStatus\<close> of the \<^verbatim>\<open>thin_status\<close> crate, the \<^verbatim>\<open>anyhow\<close> errors that carry
  either, and the extraction of an error code and an error kind for the metric labels. The
  conversions of the crates are the parameter \<open>status_api\<close>.
\<close>

section \<open>Error values\<close>

text \<open>
  \<^verbatim>\<open>std::io::ErrorKind\<close>. The enumeration is non-exhaustive; the kinds that the source does not
  name (its wildcard arm) are \<open>K_Unlisted\<close>.
\<close>

datatype error_kind =
    K_NotFound | K_PermissionDenied | K_ConnectionRefused | K_ConnectionReset
  | K_HostUnreachable | K_NetworkUnreachable | K_ConnectionAborted | K_NotConnected
  | K_AddrInUse | K_AddrNotAvailable | K_NetworkDown | K_BrokenPipe | K_AlreadyExists
  | K_WouldBlock | K_NotADirectory | K_IsADirectory | K_DirectoryNotEmpty | K_ReadOnlyFilesystem
  | K_StaleNetworkFileHandle | K_InvalidInput | K_InvalidData | K_TimedOut | K_WriteZero
  | K_StorageFull | K_NotSeekable | K_QuotaExceeded | K_FileTooLarge | K_ResourceBusy
  | K_ExecutableFileBusy | K_Deadlock | K_CrossesDevices | K_TooManyLinks | K_InvalidFilename
  | K_ArgumentListTooLong | K_Interrupted | K_Unsupported | K_UnexpectedEof | K_OutOfMemory
  | K_Other | K_Unlisted

text \<open>\<^verbatim>\<open>std::io::Error\<close>, by what can be observed of it.\<close>

record io_error =
  io_kind :: error_kind
  raw_os_error :: "int option"
  io_message :: string

text \<open>The codes of \<^verbatim>\<open>thin_status::ErrorCode\<close>, the gRPC status codes.\<close>

datatype error_code =
    Cancelled | Unknown | InvalidArgument | DeadlineExceeded | NotFound | AlreadyExists
  | PermissionDenied | ResourceExhausted | FailedPrecondition | Aborted | OutOfRange
  | Unimplemented | Internal | Unavailable | DataLoss | Unauthenticated

type_synonym i32 = "32 word"

text \<open>\<^verbatim>\<open>ThinStatus\<close>: a non-zero 32-bit code and a message.\<close>

record thin_status =
  code_raw :: i32
  message :: string

text \<open>
  \<^verbatim>\<open>anyhow::Error\<close>: a payload (an I/O error, a status, an error of another crate, or a plain
  message) under any number of context messages.
\<close>

datatype anyhow =
    Io io_error | Thin thin_status | Foreign string | Message string | Context string anyhow

record status_api =
  from_error_kind :: "error_kind \<Rightarrow> error_code"
  code_of_raw :: "i32 \<Rightarrow> error_code option"
  code_value :: "error_code \<Rightarrow> i32"
  code_str :: "error_code \<Rightarrow> string"
  status_of_io :: "io_error \<Rightarrow> thin_status"
  status_of_anyhow :: "error_code \<Rightarrow> anyhow \<Rightarrow> thin_status"
  downcast_io :: "anyhow \<Rightarrow> io_error option"
  downcast_thin :: "anyhow \<Rightarrow> thin_status option"
  debug_errors :: "anyhow list \<Rightarrow> string"

section \<open>Extracting a code and a kind\<close>

record extracted_error_code =
  code :: error_code
  kind :: error_kind

definition from_io :: "status_api \<Rightarrow> io_error \<Rightarrow> extracted_error_code" where
  "from_io st e = (let k = io_kind e in \<lparr>code = from_error_kind st k, kind = k\<rparr>)"

definition from_anyhow :: "status_api \<Rightarrow> anyhow \<Rightarrow> extracted_error_code" where
  "from_anyhow st e =
     (let kind' = map_option io_kind (downcast_io st e);
          c = Option.bind (downcast_thin st e) (\<lambda>t. code_of_raw st (code_raw t));
          c' = (case c of Some x \<Rightarrow> Some x | None \<Rightarrow> map_option (from_error_kind st) kind')
      in \<lparr>code = (case c' of Some x \<Rightarrow> x | None \<Rightarrow> Unknown),
          kind = (case kind' of Some k \<Rightarrow> k | None \<Rightarrow> K_Other)\<rparr>)"

primrec error_kind_str :: "error_kind \<Rightarrow> string" where
  "error_kind_str K_NotFound = ''NotFound''"
| "error_kind_str K_PermissionDenied = ''PermissionDenied''"
| "error_kind_str K_ConnectionRefused = ''ConnectionRefused''"
| "error_kind_str K_ConnectionReset = ''ConnectionReset''"
| "error_kind_str K_HostUnreachable = ''HostUnreachable''"
| "error_kind_str K_NetworkUnreachable = ''NetworkUnreachable''"
| "error_kind_str K_ConnectionAborted = ''ConnectionAborted''"
| "error_kind_str K_NotConnected = ''NotConnected''"
| "error_kind_str K_AddrInUse = ''AddrInUse''"
| "error_kind_str K_AddrNotAvailable = ''AddrNotAvailable''"
| "error_kind_str K_NetworkDown = ''NetworkDown''"
| "error_kind_str K_BrokenPipe = ''BrokenPipe''"
| "error_kind_str K_AlreadyExists = ''AlreadyExists''"
| "error_kind_str K_WouldBlock = ''WouldBlock''"
| "error_kind_str K_NotADirectory = ''NotADirectory''"
| "error_kind_str K_IsADirectory = ''IsADirectory''"
| "error_kind_str K_DirectoryNotEmpty = ''DirectoryNotEmpty''"
| "error_kind_str K_ReadOnlyFilesystem = ''ReadOnlyFilesystem''"
| "error_kind_str K_StaleNetworkFileHandle = ''StaleNetworkFileHandle''"
| "error_kind_str K_InvalidInput = ''InvalidInput''"
| "error_kind_str K_InvalidData = ''InvalidData''"
| "error_kind_str K_TimedOut = ''TimedOut''"
| "error_kind_str K_WriteZero = ''WriteZero''"
| "error_kind_str K_StorageFull = ''StorageFull''"
| "error_kind_str K_NotSeekable = ''NotSeekable''"
| "error_kind_str K_QuotaExceeded = ''QuotaExceeded''"
| "error_kind_str K_FileTooLarge = ''FileTooLarge''"
| "error_kind_str K_ResourceBusy = ''ResourceBusy''"
| "error_kind_str K_ExecutableFileBusy = ''ExecutableFileBusy''"
| "error_kind_str K_Deadlock = ''Deadlock''"
| "error_kind_str K_CrossesDevices = ''CrossesDevices''"
| "error_kind_str K_TooManyLinks = ''TooManyLinks''"
| "error_kind_str K_InvalidFilename = ''InvalidFilename''"
| "error_kind_str K_ArgumentListTooLong = ''ArgumentListTooLong''"
| "error_kind_str K_Interrupted = ''Interrupted''"
| "error_kind_str K_Unsupported = ''Unsupported''"
| "error_kind_str K_UnexpectedEof = ''UnexpectedEof''"
| "error_kind_str K_OutOfMemory = ''OutOfMemory''"
| "error_kind_str K_Other = ''Other''"
| "error_kind_str K_Unlisted = ''Other''"

text \<open>A metric label is a pair of a key and a value.\<close>

type_synonym label = "string \<times> string"

definition labels_static :: "string \<Rightarrow> string \<Rightarrow> label list" where
  "labels_static c k = [(''ERROR_CODE'', c), (''ERROR_KIND'', k)]"

definition into_labels :: "status_api \<Rightarrow> extracted_error_code \<Rightarrow> label list" where
  "into_labels st e = labels_static (code_str st (code e)) (error_kind_str (kind e))"

text \<open>
  The macro \<^verbatim>\<open>check_eq!\<close>: the two expressions come with their source text.
\<close>

definition check_eq :: "status_api \<Rightarrow> string \<times> 'a \<Rightarrow> string \<times> 'a \<Rightarrow> thin_status + unit" where
  "check_eq st l r =
     (if snd l \<noteq> snd r
      then Inl \<lparr>code_raw = code_value st Internal, message = fst l @ '' != '' @ fst r\<rparr>
      else Inr ())"

section \<open>Transient errors of a TUN device\<close>

text \<open>The constants of the \<^verbatim>\<open>libc\<close> crate are platform dependent.\<close>

record libc_api =
  EAGAIN :: int
  EINTR :: int
  EINVAL :: int
  EMSGSIZE :: int
  ENOBUFS :: int

definition match_libc_errors :: "libc_api \<Rightarrow> int \<Rightarrow> string option" where
  "match_libc_errors lc os_err =
     (if os_err = EAGAIN lc then Some ''EAGAIN''
      else if os_err = EINTR lc then Some ''EINTR''
      else if os_err = EINVAL lc then Some ''EINVAL''
      else if os_err = EMSGSIZE lc then Some ''EMSGSIZE''
      else if os_err = ENOBUFS lc then Some ''ENOBUFS''
      else None)"

definition is_tun_transient :: "libc_api \<Rightarrow> io_error \<Rightarrow> bool" where
  "is_tun_transient lc err =
     (case raw_os_error err of
        Some os_err \<Rightarrow> (case match_libc_errors lc os_err of Some _ \<Rightarrow> True | None \<Rightarrow> False)
      | None \<Rightarrow> False)"

section \<open>What the crates promise\<close>

text \<open>
  \<^verbatim>\<open>anyhow\<close>: a downcast looks through context messages and finds the payload of its own type.
  \<^verbatim>\<open>thin_status\<close>: a code is recovered from its value, and no code has value zero.
\<close>

locale status_contract =
  fixes st :: status_api
  assumes downcast_io: "downcast_io st (Io e) = Some e"
      "downcast_io st (Thin t) = None" "downcast_io st (Foreign s) = None"
      "downcast_io st (Message s) = None" "downcast_io st (Context c a) = downcast_io st a"
    and downcast_thin: "downcast_thin st (Thin t) = Some t"
      "downcast_thin st (Io e) = None" "downcast_thin st (Foreign s) = None"
      "downcast_thin st (Message s) = None" "downcast_thin st (Context c a) = downcast_thin st a"
    and code_value: "code_of_raw st (code_value st ec) = Some ec" "code_value st ec \<noteq> 0"
begin

text \<open>The payload below the context messages decides the labels.\<close>

lemma from_anyhow_Context: "from_anyhow st (Context c e) = from_anyhow st e"
  by (simp add: from_anyhow_def downcast_io downcast_thin)

lemma from_anyhow_Io: "from_anyhow st (Io e) = from_io st e"
  by (simp add: from_anyhow_def from_io_def downcast_io downcast_thin Let_def)

lemma from_anyhow_Thin:
  "from_anyhow st (Thin t) =
     \<lparr>code = (case code_of_raw st (code_raw t) of Some c \<Rightarrow> c | None \<Rightarrow> Unknown), kind = K_Other\<rparr>"
  by (simp add: from_anyhow_def downcast_io downcast_thin split: option.splits)

end

section \<open>Facts\<close>

lemma is_tun_transient_iff:
  "is_tun_transient lc err \<longleftrightarrow>
     (\<exists>e. raw_os_error err = Some e \<and> e \<in> {EAGAIN lc, EINTR lc, EINVAL lc, EMSGSIZE lc, ENOBUFS lc})"
  by (auto simp: is_tun_transient_def match_libc_errors_def split: option.splits)

end
