(* ===== verification/Crates.thy ===== *)
theory Crates
  imports Errors
begin

text \<open>
  The keys of the \<^verbatim>\<open>iroh\<close> crate as an interface, and one concrete instance of each third-party
  interface: networks in CIDR form, a keyed scheme that meets the signature laws, and the gRPC
  table of status codes. The instances show that the contracts are consistent and let the theorems
  that assume a contract be applied to concrete inputs; no theorem about the program rests on how
  they compute.
\<close>

section \<open>Keys and signatures\<close>

type_synonym secret_key = bytes
type_synonym public_key = bytes

datatype signature = Signature (sig_bytes: bytes)

record key_api =
  public :: "secret_key \<Rightarrow> public_key"
  sign :: "secret_key \<Rightarrow> bytes \<Rightarrow> signature"
  verify :: "public_key \<Rightarrow> bytes \<Rightarrow> signature \<Rightarrow> anyhow + unit"
  sig_try_from :: "bytes \<Rightarrow> anyhow + signature"
  to_z32 :: "public_key \<Rightarrow> string"
  from_z32 :: "string \<Rightarrow> anyhow + public_key"

section \<open>What the key operations promise\<close>

locale key_contract =
  fixes ks :: key_api
  assumes verify_sign: "verify ks (public ks sk) m (sign ks sk m) = Inr ()"
    and sign_len: "length (sig_bytes (sign ks sk m)) = 64"
    and sig_try_from_ok: "length bs = 64 \<Longrightarrow> sig_try_from ks bs = Inr (Signature bs)"
    and sig_try_from_err: "length bs \<noteq> 64 \<Longrightarrow> is_err (sig_try_from ks bs)"
    and z32_inverse: "length pk = 32 \<Longrightarrow> from_z32 ks (to_z32 ks pk) = Inr pk"
    and public_len: "length (public ks sk) = 32"

section \<open>An instance of the network operations\<close>

fun cidr_trunc :: "ip_net \<Rightarrow> ip_net" where
  "cidr_trunc (NetV4 (Ipv4Net a p)) = NetV4 (Ipv4Net (a AND NOT (mask (32 - p))) p)"
| "cidr_trunc (NetV6 (Ipv6Net a p)) = NetV6 (Ipv6Net (a AND NOT (mask (128 - p))) p)"

fun cidr_contains :: "ip_net \<Rightarrow> ip_net \<Rightarrow> bool" where
  "cidr_contains (NetV4 (Ipv4Net a p)) (NetV4 (Ipv4Net b q)) =
     (p \<le> q \<and> a AND NOT (mask (32 - p)) = b AND NOT (mask (32 - p)))"
| "cidr_contains (NetV6 (Ipv6Net a p)) (NetV6 (Ipv6Net b q)) =
     (p \<le> q \<and> a AND NOT (mask (128 - p)) = b AND NOT (mask (128 - p)))"
| "cidr_contains _ _ = False"

text \<open>
  A text form of fixed width: the family, the address in hexadecimal, the prefix length in
  hexadecimal.
\<close>

fun hex_fixed :: "nat \<Rightarrow> nat \<Rightarrow> string" where
  "hex_fixed 0 n = []"
| "hex_fixed (Suc k) n = hex_fixed k (n div 16) @ [digit_char (n mod 16)]"

definition char_digit :: "char \<Rightarrow> nat" where
  "char_digit c = (let n = of_char c in if n < 58 then n - 48 else n - 87)"

definition hex_value :: "string \<Rightarrow> nat" where
  "hex_value s = foldl (\<lambda>acc c. 16 * acc + char_digit c) 0 s"

fun cidr_to_string :: "ip_net \<Rightarrow> string" where
  "cidr_to_string (NetV4 (Ipv4Net a p)) = CHR ''4'' # hex_fixed 8 (unat a) @ hex_fixed 2 p"
| "cidr_to_string (NetV6 (Ipv6Net a p)) = CHR ''6'' # hex_fixed 32 (unat a) @ hex_fixed 2 p"

definition cidr_parse :: "string \<Rightarrow> ip_net option" where
  "cidr_parse s =
     (case s of
        [] \<Rightarrow> None
      | c # t \<Rightarrow>
          if c = CHR ''4'' \<and> length t = 10 \<and> hex_value (drop 8 t) \<le> 32
          then Some (NetV4 (Ipv4Net (of_nat (hex_value (take 8 t))) (hex_value (drop 8 t))))
          else if c = CHR ''6'' \<and> length t = 34 \<and> hex_value (drop 32 t) \<le> 128
          then Some (NetV6 (Ipv6Net (of_nat (hex_value (take 32 t))) (hex_value (drop 32 t))))
          else None)"

definition cidr :: ipnet_api where
  "cidr = \<lparr>net_trunc = cidr_trunc,
     netmask4 = (\<lambda>n. NOT (mask (32 - prefix_len4 n))),
     broadcast4 = (\<lambda>n. addr4 n OR mask (32 - prefix_len4 n)),
     netmask6 = (\<lambda>n. NOT (mask (128 - prefix_len6 n))),
     net_contains = cidr_contains, net_parse = cidr_parse, net_to_string = cidr_to_string\<rparr>"

section \<open>An instance of the key operations\<close>

definition mac_public :: "secret_key \<Rightarrow> public_key" where
  "mac_public sk = take 32 (sk @ replicate 32 0)"

definition mac_sign :: "public_key \<Rightarrow> bytes \<Rightarrow> signature" where
  "mac_sign pk m = Signature (take 64 (pk @ m @ replicate 64 0))"

definition mac :: key_api where
  "mac = \<lparr>public = mac_public, sign = (\<lambda>sk. mac_sign (mac_public sk)),
     verify = (\<lambda>pk m s. if s = mac_sign pk m then Inr () else Inl (Foreign ''signature error'')),
     sig_try_from = (\<lambda>bs. if length bs = 64 then Inr (Signature bs) else Inl (Foreign ''length'')),
     to_z32 = map (\<lambda>b. char_of (unat b)),
     from_z32 = (\<lambda>s. if length s = 32 then Inr (map (\<lambda>c. of_nat (of_char c)) s)
                      else Inl (Foreign ''key''))\<rparr>"

section \<open>An instance of the status operations\<close>

primrec grpc_value :: "error_code \<Rightarrow> i32" where
  "grpc_value Cancelled = 1"
| "grpc_value Unknown = 2"
| "grpc_value InvalidArgument = 3"
| "grpc_value DeadlineExceeded = 4"
| "grpc_value NotFound = 5"
| "grpc_value AlreadyExists = 6"
| "grpc_value PermissionDenied = 7"
| "grpc_value ResourceExhausted = 8"
| "grpc_value FailedPrecondition = 9"
| "grpc_value Aborted = 10"
| "grpc_value OutOfRange = 11"
| "grpc_value Unimplemented = 12"
| "grpc_value Internal = 13"
| "grpc_value Unavailable = 14"
| "grpc_value DataLoss = 15"
| "grpc_value Unauthenticated = 16"

primrec grpc_name :: "error_code \<Rightarrow> string" where
  "grpc_name Cancelled = ''CANCELLED''"
| "grpc_name Unknown = ''UNKNOWN''"
| "grpc_name InvalidArgument = ''INVALID_ARGUMENT''"
| "grpc_name DeadlineExceeded = ''DEADLINE_EXCEEDED''"
| "grpc_name NotFound = ''NOT_FOUND''"
| "grpc_name AlreadyExists = ''ALREADY_EXISTS''"
| "grpc_name PermissionDenied = ''PERMISSION_DENIED''"
| "grpc_name ResourceExhausted = ''RESOURCE_EXHAUSTED''"
| "grpc_name FailedPrecondition = ''FAILED_PRECONDITION''"
| "grpc_name Aborted = ''ABORTED''"
| "grpc_name OutOfRange = ''OUT_OF_RANGE''"
| "grpc_name Unimplemented = ''UNIMPLEMENTED''"
| "grpc_name Internal = ''INTERNAL''"
| "grpc_name Unavailable = ''UNAVAILABLE''"
| "grpc_name DataLoss = ''DATA_LOSS''"
| "grpc_name Unauthenticated = ''UNAUTHENTICATED''"

definition grpc_codes :: "error_code list" where
  "grpc_codes =
    [Cancelled, Unknown, InvalidArgument, DeadlineExceeded, NotFound, AlreadyExists, PermissionDenied, ResourceExhausted,
     FailedPrecondition, Aborted, OutOfRange, Unimplemented, Internal, Unavailable, DataLoss, Unauthenticated]"

definition grpc_of_kind :: "error_kind \<Rightarrow> error_code" where
  "grpc_of_kind k =
     (case k of K_NotFound \<Rightarrow> NotFound | K_PermissionDenied \<Rightarrow> PermissionDenied
      | K_TimedOut \<Rightarrow> DeadlineExceeded | _ \<Rightarrow> Unknown)"

fun chain_io :: "anyhow \<Rightarrow> io_error option" where
  "chain_io (Io e) = Some e"
| "chain_io (Context c a) = chain_io a"
| "chain_io _ = None"

fun chain_thin :: "anyhow \<Rightarrow> thin_status option" where
  "chain_thin (Thin t) = Some t"
| "chain_thin (Context c a) = chain_thin a"
| "chain_thin _ = None"

definition grpc :: status_api where
  "grpc = \<lparr>from_error_kind = grpc_of_kind,
     code_of_raw = (\<lambda>w. List.find (\<lambda>c. grpc_value c = w) grpc_codes),
     code_value = grpc_value, code_str = grpc_name,
     status_of_io = (\<lambda>e. \<lparr>code_raw = grpc_value (grpc_of_kind (io_kind e)), message = io_message e\<rparr>),
     status_of_anyhow = (\<lambda>c e. \<lparr>code_raw = grpc_value c, message = []\<rparr>),
     downcast_io = chain_io, downcast_thin = chain_thin, debug_errors = (\<lambda>es. [])\<rparr>"

section \<open>The instances meet the contracts\<close>

lemma length_hex_fixed [simp]: "length (hex_fixed k n) = k"
  by (induction k arbitrary: n) simp_all

lemma char_digit_of_digit: "d < 16 \<Longrightarrow> char_digit (digit_char d) = d"
  by (simp add: char_digit_def digit_char_def of_char_of mod_less)

lemma hex_value_fixed: "hex_value (hex_fixed k n) = n mod 16 ^ k"
proof (induction k arbitrary: n)
  case 0
  then show ?case by (simp add: hex_value_def)
next
  case (Suc k)
  have "hex_value (hex_fixed (Suc k) n) = 16 * hex_value (hex_fixed k (n div 16)) + n mod 16"
    by (simp add: hex_value_def char_digit_of_digit)
  also have "\<dots> = 16 * (n div 16 mod 16 ^ k) + n mod 16"
    by (simp add: Suc.IH)
  also have "\<dots> = n mod 16 ^ Suc k"
    by (simp add: mod_mult2_eq)
  finally show ?case .
qed

lemma cidr_parse_to_string: "wf_net n \<Longrightarrow> cidr_parse (cidr_to_string n) = Some n"
proof (cases n rule: ip_net_cases)
  case (V4 a p)
  assume "wf_net n"
  with V4 have "p \<le> 32" by simp
  moreover have "unat a < 16 ^ 8"
    using unsigned_less [of a] by simp
  ultimately show ?thesis
    unfolding V4 by (simp add: cidr_parse_def hex_value_fixed)
next
  case (V6 b q)
  assume "wf_net n"
  with V6 have "q \<le> 128" by simp
  moreover have "unat b < 16 ^ 32"
    using unsigned_less [of b] by simp
  ultimately show ?thesis
    unfolding V6 by (simp add: cidr_parse_def hex_value_fixed)
qed

lemma cidr_parse_wf: "cidr_parse s = Some n \<Longrightarrow> wf_net n"
  by (auto simp: cidr_parse_def split: list.splits if_splits)

interpretation cidr: ipnet_contract cidr
  by unfold_locales (simp_all add: cidr_def cidr_parse_to_string cidr_parse_wf)

lemma byte_mod_256 [simp]: "of_nat (unat b mod 256) = b" for b :: u8
proof -
  have "unat b < 256"
    using unsigned_less [of b] by simp
  then show ?thesis by simp
qed

interpretation mac: key_contract mac
  by unfold_locales (simp_all add: mac_def mac_sign_def mac_public_def o_def)

lemma grpc_find: "List.find (\<lambda>c. grpc_value c = grpc_value ec) grpc_codes = Some ec"
  by (cases ec) (simp_all add: grpc_codes_def)

lemma grpc_value_nonzero: "grpc_value ec \<noteq> 0"
  by (cases ec) simp_all

lemma grpc_sel:
  "code_of_raw grpc w = List.find (\<lambda>c. grpc_value c = w) grpc_codes"
  "code_value grpc = grpc_value" "downcast_io grpc = chain_io" "downcast_thin grpc = chain_thin"
  by (simp_all add: grpc_def)

interpretation grpc: status_contract grpc
  by unfold_locales (simp_all only: grpc_sel grpc_find grpc_value_nonzero chain_io.simps
      chain_thin.simps not_False_eq_True)

end
