(* ===== verification/Addr.thy ===== *)
theory Addr
  imports Crates
begin

text \<open>
  Signed VPN addresses (\<^verbatim>\<open>src/addr.rs\<close>): the address plan, the derivation of a host address from
  a signature over its network, and the verification of an advertised address.
\<close>

section \<open>The address plan\<close>

definition VPN_IPV6_PREFIX :: ipv6_net where
  "VPN_IPV6_PREFIX = Ipv6Net 0xfdbda6ce654d00000000000000000000 48"

definition VPN_IPV6_DEFAULT_ALLOWED :: ipv6_net where
  "VPN_IPV6_DEFAULT_ALLOWED = Ipv6Net (addr6 VPN_IPV6_PREFIX) (prefix_len6 VPN_IPV6_PREFIX + 1)"

definition MAX_SUBNET :: u16 where
  "MAX_SUBNET =
     drop_bit (prefix_len6 VPN_IPV6_DEFAULT_ALLOWED - prefix_len6 VPN_IPV6_PREFIX) (- 1)"

definition vpn_subnet :: "u16 \<Rightarrow> ipv6_net" where
  "vpn_subnet subnet =
     (let base_bits = addr6 VPN_IPV6_PREFIX;
          addr_bits = base_bits OR push_bit 64 (ucast subnet)
      in Ipv6Net addr_bits 64)"

section \<open>Deriving an address from a signature\<close>

definition serialize_network :: "ip_net \<Rightarrow> bytes" where
  "serialize_network net =
     of_nat (net_prefix_len net) #
     (case net of NetV4 net4 \<Rightarrow> octets4 (addr4 net4) | NetV6 net6 \<Rightarrow> octets6 (addr6 net6))"

definition derive_ipv4 :: "ipnet_api \<Rightarrow> ipv4_net \<Rightarrow> u32 \<Rightarrow> u32" where
  "derive_ipv4 ipn net entropy =
     (let net_mask = netmask4 ipn net;
          net_bits = addr4 net AND net_mask;
          host_bits = entropy AND NOT net_mask;
          final_bits = net_bits OR host_bits
      in if final_bits = broadcast4 ipn net then final_bits AND NOT 1 else final_bits)"

definition derive_ipv6 :: "ipnet_api \<Rightarrow> ipv6_net \<Rightarrow> u128 \<Rightarrow> u128" where
  "derive_ipv6 ipn net entropy =
     (let net_mask = netmask6 ipn net;
          net_bits = addr6 net AND net_mask;
          host_bits = entropy AND NOT net_mask
      in net_bits OR host_bits)"

definition generate_signed_ip_with_signature :: "ipnet_api \<Rightarrow> ip_net \<Rightarrow> signature \<Rightarrow> ip_addr" where
  "generate_signed_ip_with_signature ipn net signature =
     (let signature_bytes = sig_bytes signature;
          entropy_128 = (from_le_bytes (take 16 signature_bytes) :: u128)
      in case net of
           NetV4 net4 \<Rightarrow> V4 (derive_ipv4 ipn net4 (ucast entropy_128))
         | NetV6 net6 \<Rightarrow> V6 (derive_ipv6 ipn net6 entropy_128))"

definition generate_signed_ipnet ::
  "ipnet_api \<Rightarrow> key_api \<Rightarrow> ip_net \<Rightarrow> secret_key \<Rightarrow> ip_net \<times> signature" where
  "generate_signed_ipnet ipn ks net secret_key =
     (let signature = sign ks secret_key (serialize_network (net_trunc ipn net));
          ip = generate_signed_ip_with_signature ipn net signature
      in (net_of_addr ip (net_prefix_len net), signature))"

definition verify_signed_ipnet ::
  "ipnet_api \<Rightarrow> key_api \<Rightarrow> ip_net \<Rightarrow> public_key \<Rightarrow> signature \<Rightarrow> anyhow + unit" where
  "verify_signed_ipnet ipn ks net public_key signature =
     (let base_net = net_trunc ipn net;
          network_bytes = serialize_network base_net
      in case verify ks public_key network_bytes signature of
           Inl e \<Rightarrow> Inl e
         | Inr _ \<Rightarrow>
             (let gen_addr = generate_signed_ip_with_signature ipn base_net signature
              in if net_addr net = gen_addr then Inr ()
                 else Inl (Io \<lparr>io_kind = K_PermissionDenied, raw_os_error = None,
                               io_message = ''Address '' @ net_to_string ipn net @
                                 '' doesn't match the generated signature address '' @
                                 show_ip gen_addr\<rparr>)))"

section \<open>Words\<close>

text \<open>The network part of a derived address is that of the network, the host part the entropy's.\<close>

lemma join_bits_eq:
  fixes a e :: "'a::len word"
  shows "a AND NOT (mask k) OR e AND NOT (NOT (mask k)) = a AND NOT (mask k) OR e AND mask k"
  by simp

lemma minus_2_eq: "(- 2 :: 'a::len word) = NOT 1"
  by simp

lemma bit_clear_low: "bit (x AND - 2) n \<longleftrightarrow> bit x n \<and> 0 < n" for x :: "'a::len word"
  unfolding minus_2_eq by (auto simp: bit_simps bit_1_iff dest: bit_imp_le_length simp del: not_one_eq)

lemma clear_low_bit_net:
  fixes x :: "'a::len word"
  assumes "0 < k"
  shows "(x AND - 2) AND NOT (mask k) = x AND NOT (mask k)"
  by (rule bit_word_eqI) (use assms in \<open>auto simp: bit_net_mask bit_clear_low\<close>)

lemma clear_low_bit_even: "\<not> bit x 0 \<Longrightarrow> x AND - 2 = x" for x :: "'a::len word"
  by (rule bit_word_eqI) (auto simp: bit_clear_low simp del: bit_0 intro: gr0I)

lemma clear_low_bit_odd: "bit x 0 \<Longrightarrow> x AND - 2 \<noteq> x" for x :: "'a::len word"
  using bit_clear_low [of x 0] by auto

lemma MAX_SUBNET_value: "MAX_SUBNET = 0x7fff"
  by (simp add: MAX_SUBNET_def VPN_IPV6_DEFAULT_ALLOWED_def VPN_IPV6_PREFIX_def mask_eq_exp_minus_1)

text \<open>A subnet identifier is legal exactly when its top bit is clear.\<close>

lemma odd_div_top:
  fixes n :: nat
  assumes "n < 65536"
  shows "odd (n div 32768) \<longleftrightarrow> 32768 \<le> n"
proof (cases "n < 32768")
  case False
  then have "n div 32768 = 1"
    by (intro div_nat_eqI) (use assms in simp_all)
  with False show ?thesis by simp
qed simp

lemma le_MAX_SUBNET_iff: "s \<le> MAX_SUBNET \<longleftrightarrow> \<not> bit s 15"
proof -
  have "unat s < 65536"
    using unsigned_less [of s] by simp
  then have "odd (unat s div 32768) \<longleftrightarrow> 32768 \<le> unat s"
    by (rule odd_div_top)
  moreover have "bit s 15 \<longleftrightarrow> bit (unat s) 15"
    by (simp add: bit_unsigned_iff)
  moreover have "s \<le> MAX_SUBNET \<longleftrightarrow> unat s \<le> 32767"
    by (simp add: MAX_SUBNET_value word_le_nat_alt)
  ultimately show ?thesis
    unfolding bit_iff_odd by (simp only: numeral_eq_Suc [symmetric]) (simp, linarith)
qed

lemma bit_VPN_prefix: "n < 80 \<Longrightarrow> \<not> bit (addr6 VPN_IPV6_PREFIX) n"
proof -
  assume "n < 80"
  moreover have "addr6 VPN_IPV6_PREFIX = push_bit 80 0xfdbda6ce654d"
    by (simp add: VPN_IPV6_PREFIX_def)
  ultimately show ?thesis
    by (metis bit_push_bit_iff not_le)
qed

lemma bit_vpn_subnet:
  "bit (addr6 (vpn_subnet s)) n \<longleftrightarrow>
     bit (addr6 VPN_IPV6_PREFIX) n \<or> 64 \<le> n \<and> bit s (n - 64)"
  by (auto simp: vpn_subnet_def Let_def bit_simps dest: bit_imp_le_length)

lemma subnet_mask_eq_iff:
  "addr6 VPN_IPV6_PREFIX AND NOT (mask 79) = addr6 (vpn_subnet s) AND NOT (mask 79) \<longleftrightarrow> \<not> bit s 15"
proof
  assume "addr6 VPN_IPV6_PREFIX AND NOT (mask 79) = addr6 (vpn_subnet s) AND NOT (mask 79)"
  then have "bit (addr6 VPN_IPV6_PREFIX) 79 \<longleftrightarrow> bit (addr6 (vpn_subnet s)) 79"
    by (metis bit_net_mask order_refl)
  then show "\<not> bit s 15"
    by (simp add: bit_vpn_subnet bit_VPN_prefix)
next
  assume no15: "\<not> bit s 15"
  have "\<not> bit s (n - 64)" if "79 \<le> n" for n
  proof
    assume "bit s (n - 64)"
    then have "n - 64 < 16" by (auto dest: bit_imp_le_length)
    with that have "n - 64 = 15" by simp
    with no15 \<open>bit s (n - 64)\<close> show False by simp
  qed
  then show "addr6 VPN_IPV6_PREFIX AND NOT (mask 79) = addr6 (vpn_subnet s) AND NOT (mask 79)"
    by (intro bit_word_eqI) (auto simp: bit_net_mask bit_vpn_subnet)
qed

lemma vpn_subnet_inject:
  assumes "addr6 (vpn_subnet s) AND NOT (mask 64) = addr6 (vpn_subnet t) AND NOT (mask 64)"
  shows "s = t"
proof (rule bit_word_eqI)
  fix k assume k: "k < LENGTH(16)"
  have "bit (addr6 (vpn_subnet s)) (k + 64) \<longleftrightarrow> bit (addr6 (vpn_subnet t)) (k + 64)"
    using assms by (metis bit_net_mask le_add2)
  with k show "bit s k \<longleftrightarrow> bit t k"
    by (simp add: bit_vpn_subnet bit_VPN_prefix)
qed

section \<open>Derived addresses under the contracts\<close>

text \<open>
  The one kind of network whose derived address can leave it: an IPv4 \<^verbatim>\<open>/32\<close> with an odd address,
  where the broadcast correction clears the last bit of the network part.
\<close>

fun derivable :: "ip_net \<Rightarrow> bool" where
  "derivable (NetV4 n) = (prefix_len4 n < 32 \<or> \<not> bit (addr4 n) 0)"
| "derivable (NetV6 n) = True"

lemma generate_wf:
  "wf_net n \<Longrightarrow>
     wf_net (net_of_addr (generate_signed_ip_with_signature ipn n sg) (net_prefix_len n))"
  by (cases n rule: ip_net_cases) (simp_all add: generate_signed_ip_with_signature_def Let_def)

context ipnet_contract
begin

lemma derive_ipv6_eq:
  "q \<le> 128 \<Longrightarrow> derive_ipv6 ipn (Ipv6Net a q) e = a AND NOT (mask (128 - q)) OR e AND mask (128 - q)"
  by (simp add: derive_ipv6_def netmask6)

lemma derive_ipv4_eq:
  "p \<le> 32 \<Longrightarrow> derive_ipv4 ipn (Ipv4Net a p) e =
     (let x = a AND NOT (mask (32 - p)) OR e AND mask (32 - p)
      in if x = a OR mask (32 - p) then x AND NOT 1 else x)"
  by (simp add: derive_ipv4_def netmask4 broadcast4 Let_def)

lemma derive_ipv6_net:
  "q \<le> 128 \<Longrightarrow>
     derive_ipv6 ipn (Ipv6Net a q) e AND NOT (mask (128 - q)) = a AND NOT (mask (128 - q))"
  by (simp add: derive_ipv6_eq)

lemma derive_ipv4_net:
  assumes "p \<le> 32" and "derivable (NetV4 (Ipv4Net a p))"
  shows "derive_ipv4 ipn (Ipv4Net a p) e AND NOT (mask (32 - p)) = a AND NOT (mask (32 - p))"
proof (cases "p < 32")
  case True
  define x where "x = a AND NOT (mask (32 - p)) OR e AND mask (32 - p)"
  have "x AND NOT (mask (32 - p)) = a AND NOT (mask (32 - p))"
    unfolding x_def by (rule net_mask_join)
  moreover have "(x AND - 2) AND NOT (mask (32 - p)) = x AND NOT (mask (32 - p))"
    by (rule clear_low_bit_net) (use True in simp)
  ultimately show ?thesis
    unfolding derive_ipv4_eq [OF assms(1)] x_def [symmetric] Let_def
    by (cases "x = a OR mask (32 - p)") simp_all
next
  case False
  with assms have "p = 32" and "a AND - 2 = a" by (auto intro: clear_low_bit_even)
  then show ?thesis by (simp add: derive_ipv4_eq Let_def)
qed

lemma derive_ipv4_not_broadcast:
  assumes "p < 32"
  shows "derive_ipv4 ipn (Ipv4Net a p) e \<noteq> broadcast4 ipn (Ipv4Net a p)"
proof -
  have "bit (a OR mask (32 - p)) 0"
    using assms by (simp add: bit_or_iff bit_mask_iff del: bit_0)
  then have "(a OR mask (32 - p)) AND - 2 \<noteq> a OR mask (32 - p)"
    by (rule clear_low_bit_odd)
  then show ?thesis
    using assms by (auto simp: derive_ipv4_eq broadcast4 Let_def)
qed

lemma generate_trunc:
  assumes "wf_net n"
  shows "generate_signed_ip_with_signature ipn (net_trunc ipn n) sg =
         generate_signed_ip_with_signature ipn n sg"
proof (cases n rule: ip_net_cases)
  case (V4 a p)
  have "a AND NOT (mask (32 - p)) OR mask (32 - p) = a OR mask (32 - p)"
    by (rule bit_word_eqI) (auto simp: bit_or_iff bit_net_mask bit_mask_iff)
  moreover have "p \<le> 32" using V4 assms by simp
  ultimately show ?thesis
    unfolding V4 generate_signed_ip_with_signature_def
    by (simp only: trunc4 ip_net.case derive_ipv4_eq net_mask_idem)
next
  case (V6 b q)
  then have "q \<le> 128" using assms by simp
  then show ?thesis
    unfolding V6 generate_signed_ip_with_signature_def
    by (simp only: trunc6 ip_net.case derive_ipv6_eq net_mask_idem)
qed

text \<open>The derived address, paired with the prefix length, has the network's own truncation.\<close>

lemma generate_same_trunc:
  assumes "wf_net n" and "derivable n"
  shows "net_trunc ipn (net_of_addr (generate_signed_ip_with_signature ipn n sg) (net_prefix_len n)) =
         net_trunc ipn n"
proof (cases n rule: ip_net_cases)
  case (V4 a p)
  with assms have "p \<le> 32" and "derivable (NetV4 (Ipv4Net a p))" by simp_all
  then show ?thesis
    unfolding V4 generate_signed_ip_with_signature_def Let_def
    by (simp only: ip_net.case net_of_addr.simps net_prefix_len.simps ipv4_net.sel trunc4
        derive_ipv4_net)
next
  case (V6 b q)
  with assms have "q \<le> 128" by simp
  then show ?thesis
    unfolding V6 generate_signed_ip_with_signature_def Let_def
    by (simp only: ip_net.case net_of_addr.simps net_prefix_len.simps ipv6_net.sel trunc6
        derive_ipv6_net)
qed

text \<open>Two networks of one truncation and prefix length contain each other.\<close>

lemma contains_same_trunc:
  assumes "wf_net n" and "wf_net m" and "net_trunc ipn m = net_trunc ipn n"
  shows "net_contains ipn n m"
  using assms
  by (cases n rule: ip_net_cases; cases m rule: ip_net_cases) (auto simp: ipnet_ops)

end

section \<open>Serialized networks\<close>

lemma of_nat_u8_inject:
  assumes "p \<le> 128" and "q \<le> 128" and "(of_nat p :: u8) = of_nat q"
  shows "p = q"
proof -
  have "unat (of_nat p :: u8) = p" and "unat (of_nat q :: u8) = q"
    using assms(1,2) by (simp_all add: unsigned_of_nat take_bit_nat_eq_self)
  with assms(3) show ?thesis by metis
qed

lemma wf_net_prefix_len: "wf_net n \<Longrightarrow> net_prefix_len n \<le> 128"
  by (cases n rule: ip_net_cases) simp_all

lemma length_serialize_network:
  "length (serialize_network n) = (case n of NetV4 _ \<Rightarrow> 5 | NetV6 _ \<Rightarrow> 17)"
  by (cases n) (simp_all add: serialize_network_def)

section \<open>Generated addresses verify\<close>

lemma generated_verifies:
  assumes "ipnet_contract ipn" and "key_contract ks" and "wf_net net" and "derivable net"
    and "generate_signed_ipnet ipn ks net sk = (own, sg)"
  shows "verify_signed_ipnet ipn ks own (public ks sk) sg = Inr ()"
    and "wf_net own" and "net_trunc ipn own = net_trunc ipn net"
    and "net_prefix_len own = net_prefix_len net"
proof -
  note i = ipnet_contract.generate_same_trunc [OF assms(1,3,4)]
    ipnet_contract.generate_trunc [OF assms(1,3)]
  from assms(5) have sg: "sg = sign ks sk (serialize_network (net_trunc ipn net))"
    and own: "own = net_of_addr (generate_signed_ip_with_signature ipn net sg) (net_prefix_len net)"
    by (auto simp: generate_signed_ipnet_def Let_def)
  show trunc: "net_trunc ipn own = net_trunc ipn net"
    unfolding own by (rule i(1))
  show "wf_net own"
    unfolding own by (rule generate_wf [OF assms(3)])
  show "net_prefix_len own = net_prefix_len net"
    by (simp add: own)
  have "verify ks (public ks sk) (serialize_network (net_trunc ipn own)) sg = Inr ()"
    unfolding trunc sg by (rule key_contract.verify_sign [OF assms(2)])
  moreover have "net_addr own = generate_signed_ip_with_signature ipn (net_trunc ipn own) sg"
    unfolding trunc i(2) by (simp add: own)
  ultimately show "verify_signed_ipnet ipn ks own (public ks sk) sg = Inr ()"
    by (simp add: verify_signed_ipnet_def)
qed

lemma generated_contained:
  assumes "ipnet_contract ipn" and "key_contract ks" and "wf_net net" and "derivable net"
    and "generate_signed_ipnet ipn ks net sk = (own, sg)"
  shows "net_contains ipn net own"
  by (rule ipnet_contract.contains_same_trunc [OF assms(1,3)])
    (rule generated_verifies [OF assms])+

lemma verify_signed_ipnet_Ok_iff:
  "verify_signed_ipnet ipn ks net pk sg = Inr () \<longleftrightarrow>
     verify ks pk (serialize_network (net_trunc ipn net)) sg = Inr () \<and>
     net_addr net = generate_signed_ip_with_signature ipn (net_trunc ipn net) sg"
  by (auto simp: verify_signed_ipnet_def Let_def split: sum.splits)

text \<open>The subnet bound is exact: the network of a subnet identifier lies in the range that peers
  accept by default if and only if the identifier is at most \<open>MAX_SUBNET\<close>.\<close>

lemma vpn_subnet_allowed_iff:
  assumes "ipnet_contract ipn"
  shows "net_contains ipn (NetV6 VPN_IPV6_DEFAULT_ALLOWED) (NetV6 (vpn_subnet s)) \<longleftrightarrow> s \<le> MAX_SUBNET"
  using subnet_mask_eq_iff
  by (simp add: ipnet_contract.contains6 [OF assms] VPN_IPV6_DEFAULT_ALLOWED_def VPN_IPV6_PREFIX_def
      vpn_subnet_def Let_def le_MAX_SUBNET_iff)

text \<open>Different subnet identifiers have disjoint networks.\<close>

lemma vpn_subnet_disjoint:
  assumes "ipnet_contract ipn" and "wf_net n"
    and "net_contains ipn (NetV6 (vpn_subnet s)) n" and "net_contains ipn (NetV6 (vpn_subnet t)) n"
  shows "s = t"
proof -
  obtain b q where n: "n = NetV6 (Ipv6Net b q)" and q: "q \<le> 128"
    using assms(2,3) ipnet_contract.contains_mixed(2) [OF assms(1)]
    by (cases n rule: ip_net_cases) auto
  have "addr6 (vpn_subnet s) AND NOT (mask 64) = addr6 (vpn_subnet t) AND NOT (mask 64)"
    using assms(3,4) ipnet_contract.contains6 [OF assms(1) _ q, of 64]
    by (simp add: n vpn_subnet_def Let_def)
  then show ?thesis by (rule vpn_subnet_inject)
qed

section \<open>Properties\<close>

text \<open>(C5) Round trip: for every network, the address that a node derives with its secret key
  passes the verification with the matching public key, lies in the network it was derived for and
  keeps its prefix length. The one exception is an IPv4 \<^verbatim>\<open>/32\<close> with an odd address.\<close>

theorem verify_generated_ipnet:
  assumes "ipnet_contract ipn" and "key_contract ks"
    and "wf_net net" and "derivable net"
    and "generate_signed_ipnet ipn ks net sk = (own, sg)"
  shows "verify_signed_ipnet ipn ks own (public ks sk) sg = Inr () \<and>
    net_contains ipn net own \<and> net_prefix_len own = net_prefix_len net"
  using generated_verifies [OF assms] generated_contained [OF assms] by simp

theorem verify_generated_ipnet_witness:
  "let net = NetV6 (vpn_subnet 0x1234); (own, sg) = generate_signed_ipnet cidr mac net [7] in
     wf_net net \<and> derivable net \<and>
     verify_signed_ipnet cidr mac own (public mac [7]) sg = Inr () \<and> net_contains cidr net own"
  using verify_generated_ipnet [OF cidr.ipnet_contract_axioms mac.key_contract_axioms,
      of "NetV6 (vpn_subnet 0x1234)" "[7]"]
  by (simp add: vpn_subnet_def Let_def split: prod.split)

text \<open>(C29) The signed message determines the network: two well-formed networks with the same
  serialization are equal, across both address families, so a signature over one network is never a
  signature over another.\<close>

theorem serialize_network_inject:
  assumes "wf_net n" and "wf_net m" and "serialize_network n = serialize_network m"
  shows "n = m"
proof -
  have "net_prefix_len n = net_prefix_len m"
    by (rule of_nat_u8_inject) (use assms in \<open>auto simp: wf_net_prefix_len serialize_network_def\<close>)
  moreover have "length (serialize_network n) = length (serialize_network m)"
    using assms(3) by simp
  ultimately show ?thesis
    using assms(3)
    by (cases n rule: ip_net_cases; cases m rule: ip_net_cases)
      (auto simp: length_serialize_network serialize_network_def octets4_inject octets6_inject)
qed

theorem serialize_network_inject_witness:
  "serialize_network (NetV6 (vpn_subnet 3)) =
     serialize_network (NetV6 (Ipv6Net 0xfdbda6ce654d00030000000000000000 64)) \<and>
   NetV6 (vpn_subnet 3) = NetV6 (Ipv6Net 0xfdbda6ce654d00030000000000000000 64)"
proof -
  have "serialize_network (NetV6 (vpn_subnet 3)) =
      serialize_network (NetV6 (Ipv6Net 0xfdbda6ce654d00030000000000000000 64))"
    by code_simp
  moreover have "wf_net (NetV6 (vpn_subnet 3))"
    and "wf_net (NetV6 (Ipv6Net 0xfdbda6ce654d00030000000000000000 64))"
    by (simp_all add: vpn_subnet_def)
  ultimately show ?thesis
    using serialize_network_inject by blast
qed

text \<open>(C20) No two addresses of one network verify with the same signature: what a signature over a
  network vouches for is a single address.\<close>

theorem verified_addr_unique:
  assumes "ipnet_contract ipn" and "wf_net n" and "wf_net m"
    and "verify_signed_ipnet ipn ks n pk sg = Inr ()"
    and "verify_signed_ipnet ipn ks m pk' sg = Inr ()"
    and "net_trunc ipn n = net_trunc ipn m"
  shows "n = m"
proof -
  have "net_addr n = net_addr m"
    using assms(4-6) by (auto simp: verify_signed_ipnet_def Let_def split: sum.splits if_splits)
  moreover have "net_prefix_len n = net_prefix_len m"
    using assms(2,3,6) ipnet_contract.trunc_prefix_len [OF assms(1)] by metis
  ultimately show ?thesis
    by (metis net_of_addr_addr)
qed

theorem verified_addr_unique_witness:
  "fst (generate_signed_ipnet cidr mac (NetV4 (Ipv4Net 0x0A000000 8)) [1, 2]) =
     NetV4 (Ipv4Net 0x0A000201 8)"
proof -
  let ?net = "NetV4 (Ipv4Net 0x0A000000 8)" and ?m = "NetV4 (Ipv4Net 0x0A000201 8)"
  obtain own sg where g: "generate_signed_ipnet cidr mac ?net [1, 2] = (own, sg)"
    by fastforce
  have "wf_net ?net" and "derivable ?net"
    by simp_all
  note gv = generated_verifies [OF cidr.ipnet_contract_axioms mac.key_contract_axioms this g]
  have "verify_signed_ipnet cidr mac ?m (public mac [1, 2]) (snd (generate_signed_ipnet cidr mac ?net [1, 2])) = Inr ()"
    by code_simp
  then have v: "verify_signed_ipnet cidr mac ?m (public mac [1, 2]) sg = Inr ()"
    unfolding g snd_conv .
  have "net_trunc cidr ?net = net_trunc cidr ?m"
    by code_simp
  with gv(3) have "net_trunc cidr own = net_trunc cidr ?m"
    by simp
  from verified_addr_unique [OF cidr.ipnet_contract_axioms gv(2) _ gv(1) v this]
  show ?thesis by (simp add: g)
qed

text \<open>An IPv4 address that verifies in a network of at least two addresses is never that
  network's broadcast address.\<close>

lemma verified_ipv4_not_broadcast:
  assumes "ipnet_contract ipn" and "prefix_len4 n < 32"
    and "verify_signed_ipnet ipn ks (NetV4 n) pk sg = Inr ()"
  shows "addr4 n \<noteq> broadcast4 ipn n"
proof -
  have wf: "wf_net (NetV4 n)" using assms(2) by simp
  have "V4 (addr4 n) = generate_signed_ip_with_signature ipn (NetV4 n) sg"
    using assms(3) ipnet_contract.generate_trunc [OF assms(1) wf]
    by (auto simp: verify_signed_ipnet_def Let_def split: sum.splits if_splits)
  then obtain e where "addr4 n = derive_ipv4 ipn n e"
    by (auto simp: generate_signed_ip_with_signature_def Let_def)
  moreover obtain a p where "n = Ipv4Net a p" by (cases n)
  ultimately show ?thesis
    using ipnet_contract.derive_ipv4_not_broadcast [OF assms(1), of p a e] assms(2) by simp
qed

text \<open>The exception of the round trip is real: for an IPv4 \<^verbatim>\<open>/32\<close> network with an odd address,
  the address that is derived lies outside the network.\<close>

lemma generate_ipv4_32_odd_leaves_net:
  assumes "ipnet_contract ipn" and "bit a 0"
  shows "\<not> net_contains ipn (NetV4 (Ipv4Net a 32))
           (fst (generate_signed_ipnet ipn ks (NetV4 (Ipv4Net a 32)) sk))"
  using clear_low_bit_odd [OF assms(2)]
  by (auto simp: generate_signed_ipnet_def generate_signed_ip_with_signature_def Let_def
      ipnet_contract.derive_ipv4_eq [OF assms(1)] ipnet_contract.contains4 [OF assms(1)])

end
