(* ===== verification/Proto.thy ===== *)
theory Proto
  imports Crates
begin

text \<open>
  The control protocol (\<^verbatim>\<open>src/proto.rs\<close> and \<^verbatim>\<open>proto/p2p_vpn/control/v1/control.proto\<close>): its
  messages, the conversion between a status and a control response, the bounded read of a stream,
  and one request/response exchange on each side. The protobuf codec is the parameter
  \<open>codec\<close>; what a QUIC stream delivers is an argument.
\<close>

section \<open>Messages\<close>

record host_address =
  peer_network :: string
  peer_network_signature :: bytes

record advertise =
  own_addresses :: "host_address list"

datatype command = Advertise advertise

record control_request =
  command :: "command option"

record status =
  status_code :: i32
  status_message :: "string option"

record control_response =
  response_status :: "status option"

definition default_response :: control_response where
  "default_response = \<lparr>response_status = None\<rparr>"

text \<open>The generated codec of the messages.\<close>

record codec =
  encode_request :: "control_request \<Rightarrow> anyhow + bytes"
  decode_request :: "bytes \<Rightarrow> anyhow + control_request"
  encode_response :: "control_response \<Rightarrow> anyhow + bytes"
  decode_response :: "bytes \<Rightarrow> anyhow + control_response"

definition MAX_MESSAGE_SIZE :: nat where
  "MAX_MESSAGE_SIZE = 2048"

section \<open>Statuses and responses\<close>

text \<open>The QUIC close frame: the code as an unsigned 32-bit number and the reason.\<close>

definition close_connection :: "thin_status \<Rightarrow> u32 \<times> string" where
  "close_connection status = (code_raw status, message status)"

definition status_to_control :: "thin_status \<Rightarrow> control_response" where
  "status_to_control status =
     \<lparr>response_status = Some \<lparr>status_code = code_raw status, status_message = Some (message status)\<rparr>\<rparr>"

definition control_to_status :: "control_response \<Rightarrow> thin_status + unit" where
  "control_to_status response =
     (case response_status response of
        Some s \<Rightarrow>
          if status_code s \<noteq> 0
          then Inl \<lparr>code_raw = status_code s,
                    message = (case status_message s of Some m \<Rightarrow> m | None \<Rightarrow> [])\<rparr>
          else Inr ()
      | None \<Rightarrow> Inr ())"

section \<open>Streams\<close>

text \<open>
  One answer of \<^verbatim>\<open>read_chunks\<close>: an error, some chunks, or the end of the stream. A stream is
  the sequence of the answers it gives; when the sequence runs out the reader is still waiting,
  which is \<open>None\<close>.
\<close>

type_synonym read_event = "anyhow + bytes list option"

definition num_bytes :: "bytes list \<Rightarrow> nat" where
  "num_bytes chunks = sum_list (map length chunks)"

definition too_long :: "status_api \<Rightarrow> nat \<Rightarrow> anyhow" where
  "too_long st max_bytes =
     Thin \<lparr>code_raw = code_value st OutOfRange,
           message = ''stream longer than the limit of '' @ show_nat max_bytes @ '' bytes''\<rparr>"

fun push_chunks :: "status_api \<Rightarrow> nat \<Rightarrow> bytes list \<Rightarrow> bytes list \<Rightarrow> anyhow + bytes list" where
  "push_chunks st max_bytes buffer_list [] = Inr buffer_list"
| "push_chunks st max_bytes buffer_list (chunk # chunks) =
     (let buffer_list' = buffer_list @ [chunk]
      in if num_bytes buffer_list' \<ge> max_bytes then Inl (too_long st max_bytes)
         else push_chunks st max_bytes buffer_list' chunks)"

fun read_loop :: "status_api \<Rightarrow> nat \<Rightarrow> bytes list \<Rightarrow> read_event list \<Rightarrow> (anyhow + bytes list) option" where
  "read_loop st max_bytes buffer_list [] = None"
| "read_loop st max_bytes buffer_list (Inl e # evs) = Some (Inl e)"
| "read_loop st max_bytes buffer_list (Inr None # evs) = Some (Inr buffer_list)"
| "read_loop st max_bytes buffer_list (Inr (Some chunks) # evs) =
     (case push_chunks st max_bytes buffer_list chunks of
        Inl e \<Rightarrow> Some (Inl e)
      | Inr buffer_list' \<Rightarrow> read_loop st max_bytes buffer_list' evs)"

definition read_to_end :: "status_api \<Rightarrow> read_event list \<Rightarrow> nat \<Rightarrow> (anyhow + bytes list) option" where
  "read_to_end st recv max_bytes = read_loop st max_bytes [] recv"

text \<open>
  Reads a message and stops the stream with code 0, or with \<^verbatim>\<open>Aborted\<close> if it does not decode; the
  second component is the code of the stop, \<open>None\<close> if the stream could not be read.
\<close>

definition read_control_stream ::
  "status_api \<Rightarrow> (bytes \<Rightarrow> anyhow + 'm) \<Rightarrow> read_event list \<Rightarrow> ((anyhow + 'm) \<times> u32 option) option" where
  "read_control_stream st decode stream =
     (case read_to_end st stream MAX_MESSAGE_SIZE of
        None \<Rightarrow> None
      | Some (Inl e) \<Rightarrow> Some (Inl e, None)
      | Some (Inr buf_list) \<Rightarrow>
          (let control = decode (concat buf_list)
           in Some (control, Some (if is_ok control then 0 else code_value st Aborted))))"

text \<open>What the transport answers to the three steps of a write.\<close>

record send_result =
  write_all :: "anyhow + unit"
  finish :: "anyhow + unit"
  stopped :: "anyhow + unit"

definition write_control_stream :: "send_result \<Rightarrow> (anyhow + bytes) \<Rightarrow> anyhow + unit" where
  "write_control_stream send encoded =
     (case encoded of
        Inl e \<Rightarrow> Inl e
      | Inr buf \<Rightarrow>
          (case finish send of
             Inl e \<Rightarrow> Inl e
           | Inr _ \<Rightarrow> (case stopped send of Inl e \<Rightarrow> Inl e | Inr _ \<Rightarrow> write_all send)))"

section \<open>One exchange\<close>

text \<open>
  The side that accepts a stream: the result, and the response that was written. \<open>None\<close> while the
  request has not arrived in full.
\<close>

definition read_control ::
  "status_api \<Rightarrow> codec \<Rightarrow> anyhow + (send_result \<times> read_event list) \<Rightarrow>
   (control_request \<Rightarrow> thin_status + 'r) \<Rightarrow> ((thin_status + 'r) \<times> control_response option) option" where
  "read_control st cd conn f =
     (case conn of
        Inl e \<Rightarrow> Some (Inl (status_of_anyhow st FailedPrecondition e), None)
      | Inr (send, recv) \<Rightarrow>
          (case read_control_stream st (decode_request cd) recv of
             None \<Rightarrow> None
           | Some (Inl e, _) \<Rightarrow>
               Some (Inl (status_of_anyhow st DataLoss
                 (Context ''Received a malformed message from the peer'' e)), None)
           | Some (Inr request, _) \<Rightarrow>
               (let response = f request;
                    control_response =
                      (case response of Inr _ \<Rightarrow> default_response | Inl status \<Rightarrow> status_to_control status)
                in case write_control_stream send (encode_response cd control_response) of
                     Inl e \<Rightarrow> Some (Inl (status_of_anyhow st Aborted e), Some control_response)
                   | Inr _ \<Rightarrow> Some (response, Some control_response))))"

text \<open>The side that opens a stream.\<close>

definition write_control ::
  "status_api \<Rightarrow> codec \<Rightarrow> anyhow + (send_result \<times> read_event list) \<Rightarrow> control_request \<Rightarrow>
   (anyhow + control_response) option" where
  "write_control st cd conn control =
     (case conn of
        Inl e \<Rightarrow> Some (Inl e)
      | Inr (send, recv) \<Rightarrow>
          (case write_control_stream send (encode_request cd control) of
             Inl e \<Rightarrow> Some (Inl e)
           | Inr _ \<Rightarrow> map_option fst (read_control_stream st (decode_response cd) recv)))"

section \<open>What the codec promises\<close>

locale codec_contract =
  fixes cd :: codec
  assumes request_inverse: "encode_request cd r = Inr bs \<Longrightarrow> decode_request cd bs = Inr r"
    and response_inverse: "encode_response cd p = Inr bs \<Longrightarrow> decode_response cd bs = Inr p"
    and encode_ok: "is_ok (encode_request cd r)" "is_ok (encode_response cd p)"

section \<open>An instance of the codec\<close>

text \<open>
  A self-delimiting encoding: every element of a sequence is preceded by a 1, its end is a 0. It
  shows the contract consistent and serves the concrete inputs below.
\<close>

definition put_list :: "('a \<Rightarrow> bytes) \<Rightarrow> 'a list \<Rightarrow> bytes" where
  "put_list put xs = concat (map (\<lambda>x. 1 # put x) xs) @ [0]"

fun get_bytes :: "bytes \<Rightarrow> (bytes \<times> bytes) option" where
  "get_bytes [] = None"
| "get_bytes (t # bs) =
     (if t = 0 then Some ([], bs)
      else case bs of
             [] \<Rightarrow> None
           | b # rest \<Rightarrow> map_option (\<lambda>(xs, r). (b # xs, r)) (get_bytes rest))"

definition put_string :: "string \<Rightarrow> bytes" where
  "put_string s = put_list (\<lambda>c. [of_nat (of_char c)]) s"

definition put_host :: "host_address \<Rightarrow> bytes" where
  "put_host h = put_string (peer_network h) @ put_list (\<lambda>b. [b]) (peer_network_signature h)"

fun get_hosts :: "nat \<Rightarrow> bytes \<Rightarrow> host_address list option" where
  "get_hosts 0 bs = None"
| "get_hosts (Suc n) bs =
     (case bs of
        [] \<Rightarrow> None
      | t # bs' \<Rightarrow>
          if t = 0 then Some []
          else Option.bind (get_bytes bs') (\<lambda>(s, r).
                 Option.bind (get_bytes r) (\<lambda>(sg, r').
                   map_option (Cons \<lparr>peer_network = map (\<lambda>b. char_of (unat b)) s,
                                     peer_network_signature = sg\<rparr>) (get_hosts n r'))))"

definition put_request :: "control_request \<Rightarrow> bytes" where
  "put_request r =
     (case command r of None \<Rightarrow> [] | Some (Advertise a) \<Rightarrow> put_list put_host (own_addresses a))"

definition get_request :: "bytes \<Rightarrow> anyhow + control_request" where
  "get_request bs =
     (if bs = [] then Inr \<lparr>command = None\<rparr>
      else case get_hosts (length bs) bs of
             None \<Rightarrow> Inl (Foreign ''DecodeError'')
           | Some hs \<Rightarrow> Inr \<lparr>command = Some (Advertise \<lparr>own_addresses = hs\<rparr>)\<rparr>)"

definition put_response :: "control_response \<Rightarrow> bytes" where
  "put_response p =
     (case response_status p of
        None \<Rightarrow> []
      | Some s \<Rightarrow> be_bytes 4 (status_code s) @
          (case status_message s of None \<Rightarrow> [] | Some m \<Rightarrow> put_string m))"

definition get_response :: "bytes \<Rightarrow> anyhow + control_response" where
  "get_response bs =
     (if bs = [] then Inr default_response
      else if length bs < 4 then Inl (Foreign ''DecodeError'')
      else let c = from_be_bytes (take 4 bs)
           in if length bs = 4
              then Inr \<lparr>response_status = Some \<lparr>status_code = c, status_message = None\<rparr>\<rparr>
              else case get_bytes (drop 4 bs) of
                     None \<Rightarrow> Inl (Foreign ''DecodeError'')
                   | Some (m, _) \<Rightarrow>
                       Inr \<lparr>response_status = Some \<lparr>status_code = c,
                              status_message = Some (map (\<lambda>b. char_of (unat b)) m)\<rparr>\<rparr>)"

definition wire :: codec where
  "wire = \<lparr>encode_request = (\<lambda>r. Inr (put_request r)), decode_request = get_request,
           encode_response = (\<lambda>p. Inr (put_response p)), decode_response = get_response\<rparr>"

lemma put_list_simps [simp]: "put_list f [] = [0]" "put_list f (x # xs) = 1 # f x @ put_list f xs"
  by (simp_all add: put_list_def)

lemma get_put_bytes: "get_bytes (put_list (\<lambda>b. [b]) bs @ r) = Some (bs, r)"
  by (induction bs) simp_all

lemma get_put_string: "get_bytes (put_string s @ r) = Some (map (\<lambda>c. of_nat (of_char c)) s, r)"
  unfolding put_string_def by (induction s) simp_all

lemma char_of_byte [simp]: "char_of (unat (of_nat (of_char c) :: u8)) = c"
proof -
  have "of_char c < (256 :: nat)"
    by simp
  then have "unat (of_nat (of_char c) :: u8) = of_char c"
    by (simp add: unat_of_nat)
  then show ?thesis by simp
qed

lemma get_put_hosts:
  "length hs < n \<Longrightarrow> get_hosts n (put_list put_host hs) = Some hs"
proof (induction hs arbitrary: n)
  case Nil
  then show ?case by (cases n) simp_all
next
  case (Cons h hs)
  then obtain m where "n = Suc m" and "length hs < m" by (cases n) auto
  then show ?case
    using Cons.IH
    by (simp add: put_host_def get_put_string get_put_bytes o_def)
qed

lemma length_put_hosts: "length hs < length (put_list f hs)"
  by (induction hs) simp_all

lemma put_list_not_Nil [simp]: "put_list f hs \<noteq> []"
  by (simp add: put_list_def)

lemma get_put_request: "get_request (put_request r) = Inr r"
proof (cases "command r")
  case None
  then show ?thesis by (simp add: put_request_def get_request_def)
next
  case (Some c)
  then obtain a where "command r = Some (Advertise a)" by (cases c) simp
  then show ?thesis
    by (simp add: put_request_def get_request_def get_put_hosts length_put_hosts)
qed

section \<open>Streams that deliver\<close>

text \<open>A stream that delivers the bytes of the given chunk batches and then ends.\<close>

definition delivers :: "bytes list list \<Rightarrow> read_event list" where
  "delivers batches = map (\<lambda>chunks. Inr (Some chunks)) batches @ [Inr None]"

lemma num_bytes_simps [simp]:
  "num_bytes [] = 0" "num_bytes (xs @ ys) = num_bytes xs + num_bytes ys"
  "num_bytes (c # cs) = length c + num_bytes cs"
  by (simp_all add: num_bytes_def)

lemma num_bytes_concat: "num_bytes cs = length (concat cs)"
  by (simp add: num_bytes_def length_concat)

lemma push_chunks_spec:
  "num_bytes buf < max_bytes \<Longrightarrow>
     push_chunks st max_bytes buf chunks =
       (if num_bytes buf + num_bytes chunks < max_bytes then Inr (buf @ chunks)
        else Inl (too_long st max_bytes))"
  by (induction chunks arbitrary: buf) (auto simp: Let_def)

lemma read_loop_delivers:
  "num_bytes buf < max_bytes \<Longrightarrow>
     read_loop st max_bytes buf (delivers batches) =
       Some (if num_bytes buf + num_bytes (concat batches) < max_bytes
             then Inr (buf @ concat batches) else Inl (too_long st max_bytes))"
  by (induction batches arbitrary: buf) (auto simp: delivers_def push_chunks_spec)

lemma read_loop_bound:
  assumes "read_loop st max_bytes buf evs = Some (Inr res)" and "num_bytes buf < max_bytes"
  shows "num_bytes res < max_bytes"
  using assms
  by (induction st max_bytes buf evs rule: read_loop.induct)
    (auto simp: push_chunks_spec split: sum.splits if_splits)

lemma read_control_stream_delivers:
  assumes "concat (concat batches) = bs" and "length bs < MAX_MESSAGE_SIZE"
  shows "read_control_stream st decode (delivers batches) =
    Some (decode bs, Some (if is_ok (decode bs) then 0 else code_value st Aborted))"
proof -
  have "num_bytes (concat batches) < MAX_MESSAGE_SIZE"
    using assms by (simp add: num_bytes_concat)
  then show ?thesis
    using read_loop_delivers [of "[]" MAX_MESSAGE_SIZE st batches] assms(1)
    by (simp add: read_control_stream_def read_to_end_def)
qed

lemma get_put_response: "get_response (put_response p) = Inr p"
proof (cases "response_status p")
  case None
  then show ?thesis by (simp add: put_response_def get_response_def default_response_def)
next
  case (Some s)
  have c: "from_be_bytes (be_bytes 4 (status_code s)) = status_code s"
    by (rule from_be_bytes_be_bytes) simp
  have ne: "be_bytes 4 (status_code s) @ xs \<noteq> []" for xs
    by (metis append_is_Nil_conv length_be_bytes list.size(3) zero_neq_numeral)
  show ?thesis
  proof (cases "status_message s")
    case None
    with Some c ne [of "[]"] show ?thesis by (simp add: put_response_def get_response_def Let_def)
  next
    case (Some m)
    have g: "get_bytes (put_string m) = Some (map (\<lambda>c. of_nat (of_char c)) m, [])"
      using get_put_string [of m "[]"] by simp
    have "put_string m \<noteq> []" by (simp add: put_string_def)
    with Some \<open>response_status p = Some s\<close> c g ne [of "put_string m"] show ?thesis
      by (simp add: put_response_def get_response_def Let_def o_def)
  qed
qed

interpretation wire: codec_contract wire
  by unfold_locales (auto simp: wire_def get_put_request get_put_response)

section \<open>Exchanges that complete\<close>

text \<open>A stream whose three write steps succeed.\<close>

definition sent :: send_result where
  "sent = \<lparr>write_all = Inr (), finish = Inr (), stopped = Inr ()\<rparr>"

lemma write_control_stream_sent [simp]: "write_control_stream sent (Inr bs) = Inr ()"
  by (simp add: write_control_stream_def sent_def)

definition verdict :: "thin_status + 'r \<Rightarrow> control_response" where
  "verdict res = (case res of Inr _ \<Rightarrow> default_response | Inl status \<Rightarrow> status_to_control status)"

lemma control_to_status_verdict:
  "control_to_status (verdict res) =
     (case res of Inl s \<Rightarrow> if code_raw s = 0 then Inr () else Inl s | Inr _ \<Rightarrow> Inr ())"
  by (simp add: verdict_def control_to_status_def status_to_control_def default_response_def
      split: sum.splits)

context codec_contract
begin

lemma read_control_delivers:
  assumes "encode_request cd req = Inr rb" and "length rb < MAX_MESSAGE_SIZE"
    and "concat (concat batches) = rb"
  shows "read_control st cd (Inr (sent, delivers batches)) f = Some (f req, Some (verdict (f req)))"
proof -
  obtain pb where "encode_response cd (verdict (f req)) = Inr pb"
    using encode_ok(2) [of "verdict (f req)"] by (auto simp: is_ok_iff)
  then show ?thesis
    using read_control_stream_delivers [OF assms(3,2), of st "decode_request cd"]
    by (simp add: read_control_def request_inverse [OF assms(1)] Let_def verdict_def)
qed

lemma write_control_delivers:
  assumes "encode_response cd p = Inr pb" and "length pb < MAX_MESSAGE_SIZE"
    and "concat (concat batches) = pb"
  shows "write_control st cd (Inr (sent, delivers batches)) req = Some (Inr p)"
proof -
  obtain rb where "encode_request cd req = Inr rb"
    using encode_ok(1) [of req] by (auto simp: is_ok_iff)
  then show ?thesis
    using read_control_stream_delivers [OF assms(3,2), of st "decode_response cd"]
    by (simp add: write_control_def response_inverse [OF assms(1)])
qed

end

section \<open>Properties\<close>

text \<open>(C21) The bounded read: a stream that ends after delivering any batches of chunks is read back
  whole and in order when it is shorter than the limit, and is refused with \<^verbatim>\<open>OutOfRange\<close> when it
  reaches the limit, however the data is cut into chunks.\<close>

theorem read_to_end_delivers:
  assumes "0 < max_bytes"
  shows "read_to_end st (delivers batches) max_bytes =
    Some (if length (concat (concat batches)) < max_bytes then Inr (concat batches)
          else Inl (too_long st max_bytes))"
  using read_loop_delivers [of "[]" max_bytes st batches] assms
  by (simp add: read_to_end_def num_bytes_concat)

theorem read_to_end_delivers_witness:
  "read_to_end grpc (delivers [[[1, 2], [3]], [[4]]]) 5 = Some (Inr [[1, 2], [3], [4]]) \<and>
   read_to_end grpc (delivers [[[1, 2], [3]], [[4]]]) 4 = Some (Inl (too_long grpc 4))"
  using read_to_end_delivers [of 5 grpc "[[[1, 2], [3]], [[4]]]"]
    read_to_end_delivers [of 4 grpc "[[[1, 2], [3]], [[4]]]"]
  by simp

text \<open>(C28) Memory bound: whatever a peer sends, in whatever order of data, errors and silence, a
  read that succeeds holds fewer bytes than the limit.\<close>

theorem read_to_end_bounded:
  assumes "0 < max_bytes" and "read_to_end st recv max_bytes = Some (Inr chunks)"
  shows "num_bytes chunks < max_bytes"
  using read_loop_bound [of st max_bytes "[]" recv chunks] assms by (simp add: read_to_end_def)

theorem read_to_end_bounded_witness:
  "read_to_end grpc [Inr (Some [[1], [2]]), Inr None, Inl (Message [])] 3 = Some (Inr [[1], [2]]) \<and>
   num_bytes [[1], [2 :: u8]] < 3"
proof -
  have r: "read_to_end grpc [Inr (Some [[1], [2]]), Inr None, Inl (Message [])] 3 = Some (Inr [[1], [2]])"
    by (simp add: read_to_end_def)
  show ?thesis
    using r read_to_end_bounded [OF _ r] by simp
qed

text \<open>(C15) One exchange carries the verdict: when the request and the response arrive whole and fit
  the message limit, the accepting side returns what its handler returned for exactly the request
  that was sent, and the requesting side reads back the handler's status with its code and message,
  or success. The chunking of the two messages does not matter.\<close>

theorem control_exchange:
  assumes "codec_contract cd"
    and "encode_request cd req = Inr rb" and "length rb < MAX_MESSAGE_SIZE"
    and "concat (concat batches) = rb"
    and "encode_response cd (verdict (f req)) = Inr pb" and "length pb < MAX_MESSAGE_SIZE"
    and "concat (concat batches') = pb"
  shows "\<exists>resp.
    read_control st cd (Inr (sent, delivers batches)) f = Some (f req, Some resp) \<and>
    write_control st cd (Inr (sent, delivers batches')) req = Some (Inr resp) \<and>
    control_to_status resp =
      (case f req of Inl s \<Rightarrow> if code_raw s = 0 then Inr () else Inl s | Inr _ \<Rightarrow> Inr ())"
  using codec_contract.read_control_delivers [OF assms(1-4), of st f]
    codec_contract.write_control_delivers [OF assms(1) assms(5-7), of st req]
    control_to_status_verdict [of "f req"]
  by blast

theorem control_exchange_witness:
  "let s = \<lparr>code_raw = 7, message = ''no''\<rparr>; req = \<lparr>command = None\<rparr> in
     \<exists>resp. read_control grpc wire (Inr (sent, delivers [])) (\<lambda>_. Inl s :: thin_status + unit)
         = Some (Inl s, Some resp) \<and>
       write_control grpc wire (Inr (sent, delivers [[put_response (status_to_control s)]])) req
         = Some (Inr resp) \<and>
       control_to_status resp = Inl s"
proof -
  let ?s = "\<lparr>code_raw = 7, message = ''no''\<rparr>"
  have "length (put_response (status_to_control ?s)) < MAX_MESSAGE_SIZE"
    by (simp add: put_response_def status_to_control_def put_string_def MAX_MESSAGE_SIZE_def)
  then show ?thesis
    using control_exchange [OF wire.codec_contract_axioms, of "\<lparr>command = None\<rparr>" "[]" "[]"
        "\<lambda>_. Inl ?s :: thin_status + unit" "put_response (status_to_control ?s)"
        "[[put_response (status_to_control ?s)]]" grpc]
    by (simp add: wire_def put_request_def verdict_def MAX_MESSAGE_SIZE_def)
qed

text \<open>A request that is too long or does not decode never reaches the handler: the accepting
  side fails with \<^verbatim>\<open>DataLoss\<close> and writes no response, whatever the handler is.\<close>

lemma read_control_malformed:
  assumes "MAX_MESSAGE_SIZE \<le> length (concat (concat batches)) \<or>
    is_err (decode_request cd (concat (concat batches)))"
  shows "\<exists>e. \<forall>f :: control_request \<Rightarrow> thin_status + 'r.
    read_control st cd (Inr (send, delivers batches)) f =
      Some (Inl (status_of_anyhow st DataLoss
        (Context ''Received a malformed message from the peer'' e)), None)"
proof (cases "MAX_MESSAGE_SIZE \<le> length (concat (concat batches))")
  case True
  then have "read_control_stream st (decode_request cd) (delivers batches) =
      Some (Inl (too_long st MAX_MESSAGE_SIZE), None)"
    using read_loop_delivers [of "[]" MAX_MESSAGE_SIZE st batches]
    by (simp add: read_control_stream_def read_to_end_def num_bytes_concat MAX_MESSAGE_SIZE_def)
  then show ?thesis by (auto simp: read_control_def)
next
  case False
  with assms obtain e where "decode_request cd (concat (concat batches)) = Inl e"
    by (auto simp: is_ok_def split: sum.splits)
  with False show ?thesis
    using read_control_stream_delivers [OF refl, of batches st "decode_request cd"]
    by (auto simp: read_control_def)
qed

end
