(* ===== verification/Validate_Addr.thy ===== *)
theory Validate_Addr
  imports Addr Proto
begin

text \<open>
  The validation of advertised addresses (\<^verbatim>\<open>src/peer/validate_addr.rs\<close>): each network of an
  advertisement is parsed, its signature is verified with the key of the peer, and it is kept if
  it lies in one of the allowed networks.
\<close>

section \<open>Operations\<close>

definition is_subnet_of_any :: "ipnet_api \<Rightarrow> ip_net \<Rightarrow> ip_net list \<Rightarrow> bool" where
  "is_subnet_of_any ipn net allowed = list_ex (\<lambda>a. net_contains ipn a net) allowed"

definition validate_address ::
  "ipnet_api \<Rightarrow> key_api \<Rightarrow> host_address \<Rightarrow> public_key \<Rightarrow> anyhow + ip_net" where
  "validate_address ipn ks host key =
     (case net_parse ipn (peer_network host) of
        None \<Rightarrow> Inl (Foreign ''AddrParseError'')
      | Some net \<Rightarrow>
          (case sig_try_from ks (peer_network_signature host) of
             Inl e \<Rightarrow> Inl (Context ''Invalid cryptographic signature'' e)
           | Inr signature \<Rightarrow>
               (case verify_signed_ipnet ipn ks net key signature of
                  Inl e \<Rightarrow> Inl e
                | Inr _ \<Rightarrow> Inr net)))"

fun validate_loop ::
  "ipnet_api \<Rightarrow> key_api \<Rightarrow> ip_net list \<Rightarrow> public_key \<Rightarrow> ip_net list \<Rightarrow> anyhow list \<Rightarrow>
   host_address list \<Rightarrow> ip_net list \<times> anyhow list" where
  "validate_loop ipn ks allowed_nets key valid errors [] = (valid, errors)"
| "validate_loop ipn ks allowed_nets key valid errors (host # hosts) =
     (case validate_address ipn ks host key of
        Inr net \<Rightarrow>
          if is_subnet_of_any ipn net allowed_nets
          then validate_loop ipn ks allowed_nets key (valid @ [net]) errors hosts
          else validate_loop ipn ks allowed_nets key valid errors hosts
      | Inl e \<Rightarrow>
          validate_loop ipn ks allowed_nets key valid
            (errors @ [Context (''when validating network '' @ single_quoted (peer_network host)) e]) hosts)"

definition validate_addresses ::
  "ipnet_api \<Rightarrow> key_api \<Rightarrow> ip_net list \<Rightarrow> advertise \<Rightarrow> public_key \<Rightarrow> ip_net list \<times> anyhow list" where
  "validate_addresses ipn ks allowed_nets adv key =
     validate_loop ipn ks allowed_nets key [] [] (own_addresses adv)"

section \<open>What validation keeps\<close>

text \<open>The specification: the accepted networks and the errors, in the order of the advertisement.\<close>

definition accepted :: "ipnet_api \<Rightarrow> key_api \<Rightarrow> ip_net list \<Rightarrow> public_key \<Rightarrow> host_address \<Rightarrow> ip_net option" where
  "accepted ipn ks allowed_nets key host =
     (case validate_address ipn ks host key of
        Inl _ \<Rightarrow> None
      | Inr net \<Rightarrow> if is_subnet_of_any ipn net allowed_nets then Some net else None)"

definition rejected :: "ipnet_api \<Rightarrow> key_api \<Rightarrow> public_key \<Rightarrow> host_address \<Rightarrow> anyhow option" where
  "rejected ipn ks key host =
     (case validate_address ipn ks host key of
        Inl e \<Rightarrow> Some (Context (''when validating network '' @ single_quoted (peer_network host)) e)
      | Inr _ \<Rightarrow> None)"

lemma validate_loop_eq:
  "validate_loop ipn ks allowed_nets key valid errors hosts =
     (valid @ List.map_filter (accepted ipn ks allowed_nets key) hosts,
      errors @ List.map_filter (rejected ipn ks key) hosts)"
  by (induction hosts arbitrary: valid errors)
    (simp_all add: List.map_filter_simps accepted_def rejected_def split: sum.splits)

lemma validate_addresses_eq:
  "validate_addresses ipn ks allowed_nets adv key =
     (List.map_filter (accepted ipn ks allowed_nets key) (own_addresses adv),
      List.map_filter (rejected ipn ks key) (own_addresses adv))"
  by (simp add: validate_addresses_def validate_loop_eq)

lemma map_filter_all: "(\<And>x. x \<in> set xs \<Longrightarrow> f x = Some (g x)) \<Longrightarrow> List.map_filter f xs = map g xs"
  by (induction xs) (simp_all add: List.map_filter_simps)

lemma map_filter_none: "(\<And>x. x \<in> set xs \<Longrightarrow> f x = None) \<Longrightarrow> List.map_filter f xs = []"
  by (induction xs) (simp_all add: List.map_filter_simps)

lemma in_map_filter: "y \<in> set (List.map_filter f xs) \<longleftrightarrow> (\<exists>x \<in> set xs. f x = Some y)"
  by (induction xs) (auto simp: List.map_filter_simps split: option.splits)

lemma accepted_iff:
  "accepted ipn ks allowed_nets key host = Some net \<longleftrightarrow>
     validate_address ipn ks host key = Inr net \<and> is_subnet_of_any ipn net allowed_nets"
  by (auto simp: accepted_def split: sum.splits)

lemma validate_address_Inr_iff:
  "validate_address ipn ks host key = Inr net \<longleftrightarrow>
     (\<exists>sg. net_parse ipn (peer_network host) = Some net \<and>
        sig_try_from ks (peer_network_signature host) = Inr sg \<and>
        verify_signed_ipnet ipn ks net key sg = Inr ())"
  by (auto simp: validate_address_def split: option.splits sum.splits)

text \<open>The message entry of a network signed with a secret key.\<close>

definition host_entry :: "ipnet_api \<Rightarrow> ip_net \<times> signature \<Rightarrow> host_address" where
  "host_entry ipn own =
     \<lparr>peer_network = net_to_string ipn (fst own), peer_network_signature = sig_bytes (snd own)\<rparr>"

lemma validate_own_entry:
  assumes "ipnet_contract ipn" and "key_contract ks" and "wf_net net" and "derivable net"
  shows "validate_address ipn ks (host_entry ipn (generate_signed_ipnet ipn ks net sk)) (public ks sk) =
    Inr (fst (generate_signed_ipnet ipn ks net sk))"
proof -
  obtain own sg where g: "generate_signed_ipnet ipn ks net sk = (own, sg)"
    by fastforce
  note gv = generated_verifies [OF assms g]
  have "sg = sign ks sk (serialize_network (net_trunc ipn net))"
    using g by (simp add: generate_signed_ipnet_def Let_def)
  then have "length (sig_bytes sg) = 64"
    using key_contract.sign_len [OF assms(2)] by simp
  then have "sig_try_from ks (sig_bytes sg) = Inr sg"
    using key_contract.sig_try_from_ok [OF assms(2)] by simp
  moreover have "net_parse ipn (net_to_string ipn own) = Some own"
    by (rule ipnet_contract.parse_to_string [OF assms(1) gv(2)])
  ultimately show ?thesis
    using gv(1) by (simp add: g host_entry_def validate_address_Inr_iff)
qed

text \<open>A node that signs networks inside the allowed ones has all of them accepted, in order and
  without an error.\<close>

lemma own_addresses_accepted:
  assumes "ipnet_contract ipn" and "key_contract ks"
    and "\<forall>net \<in> set nets. wf_net net \<and> derivable net \<and>
      (\<exists>a \<in> set allowed_nets. wf_net a \<and> net_contains ipn a net)"
  shows "validate_addresses ipn ks allowed_nets
      \<lparr>own_addresses = map (\<lambda>net. host_entry ipn (generate_signed_ipnet ipn ks net sk)) nets\<rparr>
      (public ks sk) =
    (map (\<lambda>net. fst (generate_signed_ipnet ipn ks net sk)) nets, [])"
proof -
  have "accepted ipn ks allowed_nets (public ks sk)
        (host_entry ipn (generate_signed_ipnet ipn ks net sk)) =
      Some (fst (generate_signed_ipnet ipn ks net sk))" and
    "rejected ipn ks (public ks sk) (host_entry ipn (generate_signed_ipnet ipn ks net sk)) = None"
    if net: "net \<in> set nets" for net
  proof -
    obtain own sg where g: "generate_signed_ipnet ipn ks net sk = (own, sg)"
      by fastforce
    obtain a where a: "a \<in> set allowed_nets" "wf_net a" "net_contains ipn a net"
        and n: "wf_net net" "derivable net"
      using assms(3) net by blast
    note c = assms(1,2) n g
    have "net_contains ipn a own"
      using ipnet_contract.contains_trans [OF assms(1) a(2) n(1) generated_verifies(2) [OF c] a(3)
          generated_contained [OF c]] .
    with a(1) have "is_subnet_of_any ipn own allowed_nets"
      unfolding is_subnet_of_any_def list_ex_iff by blast
    moreover have v: "validate_address ipn ks (host_entry ipn (own, sg)) (public ks sk) = Inr own"
      using validate_own_entry [OF c(1-4), of sk] unfolding g fst_conv .
    ultimately show "accepted ipn ks allowed_nets (public ks sk)
        (host_entry ipn (generate_signed_ipnet ipn ks net sk)) =
      Some (fst (generate_signed_ipnet ipn ks net sk))"
      unfolding g fst_conv accepted_iff by blast
    show "rejected ipn ks (public ks sk) (host_entry ipn (generate_signed_ipnet ipn ks net sk)) = None"
      unfolding g rejected_def v by simp
  qed
  then show ?thesis
    by (simp add: validate_addresses_eq List.map_filter_def o_def)
qed

text \<open>A host network is whatever its signer says: a node can sign the \<^verbatim>\<open>/128\<close> network of any IPv6
  address in an allowed range with its own key, and validation accepts that address as the node's
  own. The signature of a network with no host bits does not constrain the address.\<close>

lemma host_network_accepted:
  assumes "ipnet_contract ipn" and "key_contract ks"
    and "net_contains ipn a (NetV6 (Ipv6Net victim 128))" and "a \<in> set allowed_nets"
  shows "validate_addresses ipn ks allowed_nets
      \<lparr>own_addresses = [host_entry ipn (generate_signed_ipnet ipn ks (NetV6 (Ipv6Net victim 128)) sk)]\<rparr>
      (public ks sk) = ([NetV6 (Ipv6Net victim 128)], [])"
proof -
  let ?net = "NetV6 (Ipv6Net victim 128)"
  have n: "wf_net ?net" "derivable ?net" by simp_all
  have own: "fst (generate_signed_ipnet ipn ks ?net sk) = ?net"
    by (simp add: generate_signed_ipnet_def generate_signed_ip_with_signature_def Let_def
        ipnet_contract.derive_ipv6_eq [OF assms(1)])
  have "is_subnet_of_any ipn ?net allowed_nets"
    using assms(3,4) unfolding is_subnet_of_any_def list_ex_iff by blast
  then show ?thesis
    using validate_own_entry [OF assms(1,2) n, of sk] unfolding own
    by (simp add: validate_addresses_eq accepted_def rejected_def List.map_filter_simps)
qed

section \<open>Properties\<close>

text \<open>The validation loop computes its specification: it returns the networks of the entries
  that verify and lie in an allowed network, and one error for each entry that does not verify, both
  in the order of the advertisement; an entry is never in both lists.\<close>

lemma validate_addresses_spec:
  "validate_addresses ipn ks allowed_nets adv key =
     (List.map_filter (accepted ipn ks allowed_nets key) (own_addresses adv),
      List.map_filter (rejected ipn ks key) (own_addresses adv)) \<and>
   (accepted ipn ks allowed_nets key host = None \<or> rejected ipn ks key host = None)"
  by (auto simp: validate_addresses_eq accepted_def rejected_def split: sum.splits)

text \<open>(C6) Soundness: every network that validation returns is well-formed, lies in an allowed
  network, and comes with a signature in the advertisement that verifies under the peer's key for
  the network's base and that derives exactly this address.\<close>

theorem validate_addresses_sound:
  assumes "ipnet_contract ipn" and "net \<in> set (fst (validate_addresses ipn ks allowed_nets adv key))"
  shows "wf_net net \<and> (\<exists>a \<in> set allowed_nets. net_contains ipn a net) \<and>
    (\<exists>host \<in> set (own_addresses adv). \<exists>sg.
       sig_try_from ks (peer_network_signature host) = Inr sg \<and>
       verify ks key (serialize_network (net_trunc ipn net)) sg = Inr () \<and>
       net_addr net = generate_signed_ip_with_signature ipn (net_trunc ipn net) sg)"
proof -
  obtain host where h: "host \<in> set (own_addresses adv)"
      and v: "validate_address ipn ks host key = Inr net" and a: "is_subnet_of_any ipn net allowed_nets"
    using assms(2) by (auto simp: validate_addresses_eq in_map_filter accepted_iff)
  obtain sg where p: "net_parse ipn (peer_network host) = Some net"
      and s: "sig_try_from ks (peer_network_signature host) = Inr sg"
      and vs: "verify_signed_ipnet ipn ks net key sg = Inr ()"
    using v by (auto simp: validate_address_Inr_iff)
  have "wf_net net"
    by (rule ipnet_contract.parse_wf [OF assms(1) p])
  moreover have "\<exists>x \<in> set allowed_nets. net_contains ipn x net"
    using a by (simp add: is_subnet_of_any_def list_ex_iff)
  ultimately show ?thesis
    using h s vs unfolding verify_signed_ipnet_Ok_iff by blast
qed

theorem validate_addresses_sound_witness:
  "let net = NetV6 (vpn_subnet 0);
       adv = \<lparr>own_addresses = [host_entry cidr (generate_signed_ipnet cidr mac net [5])]\<rparr> in
     \<exists>own. own \<in> set (fst (validate_addresses cidr mac [net] adv (public mac [5]))) \<and> wf_net own \<and>
       (\<exists>a \<in> set [net]. net_contains cidr a own)"
proof -
  let ?net = "NetV6 (vpn_subnet 0)"
  let ?adv = "\<lparr>own_addresses = [host_entry cidr (generate_signed_ipnet cidr mac ?net [5])]\<rparr>"
  let ?own = "fst (generate_signed_ipnet cidr mac ?net [5])"
  have n: "wf_net ?net" "derivable ?net" by (simp_all add: vpn_subnet_def)
  have "net_contains cidr ?net ?own"
    by (rule generated_contained [OF cidr.ipnet_contract_axioms mac.key_contract_axioms n
          surjective_pairing])
  then have "?own \<in> set (fst (validate_addresses cidr mac [?net] ?adv (public mac [5])))"
    using validate_own_entry [OF cidr.ipnet_contract_axioms mac.key_contract_axioms n, of "[5]"]
    by (simp add: validate_addresses_eq accepted_def is_subnet_of_any_def)
  then show ?thesis
    using validate_addresses_sound [OF cidr.ipnet_contract_axioms] unfolding Let_def by blast
qed

end
