(* ===== verification/Route.thy ===== *)
theory Route
  imports Crates
begin

text \<open>
  The system routing table (\<^verbatim>\<open>src/route.rs\<close>, \<^verbatim>\<open>src/osal/retry.rs\<close>): the retry of a transient
  error, the host routes that \<^verbatim>\<open>NetRouteHandle\<close> adds and deletes, and the guard \<^verbatim>\<open>ScopedRoute\<close>
  that panics when a route is forgotten. The operating system behind the \<^verbatim>\<open>net_route\<close> crate is
  the parameter \<open>os_routes\<close>; the trait \<^verbatim>\<open>RoutingTable\<close> is the record \<open>routing\<close> with the locale
  \<open>routing_table\<close> for what its users rely on. Spans and counters are not modelled.
\<close>

section \<open>Retrying\<close>

definition WINDOWS_ERROR_NOT_FOUND :: int where
  "WINDOWS_ERROR_NOT_FOUND = 1168"

text \<open>
  The first argument holds the delays that the exponential backoff yields before its budget of two
  seconds is spent; how the delays come about is up to the \<^verbatim>\<open>backoff\<close> crate.
\<close>

fun retry_on_windows_not_found ::
  "nat list \<Rightarrow> ('s \<Rightarrow> (io_error + 'a) \<times> 's) \<Rightarrow> 's \<Rightarrow> (io_error + 'a) \<times> 's" where
  "retry_on_windows_not_found backoff operation s =
     (case operation s of
        (Inr x, s') \<Rightarrow> (Inr x, s')
      | (Inl err, s') \<Rightarrow>
          if raw_os_error err = Some WINDOWS_ERROR_NOT_FOUND
          then (case backoff of
                  [] \<Rightarrow> (Inl err, s')
                | delay # backoff' \<Rightarrow> retry_on_windows_not_found backoff' operation s')
          else (Inl err, s'))"

declare retry_on_windows_not_found.simps [simp del]

section \<open>Host routes\<close>

record net_route =
  destination :: ip_addr
  prefix :: nat
  ifindex :: "u32 option"

text \<open>The operations of a \<^verbatim>\<open>net_route::Handle\<close> on the state of the operating system.\<close>

record 'k os_routes =
  os_add :: "net_route \<Rightarrow> 'k \<Rightarrow> (io_error + unit) \<times> 'k"
  os_delete :: "net_route \<Rightarrow> 'k \<Rightarrow> (io_error + unit) \<times> 'k"

text \<open>The trait \<^verbatim>\<open>RoutingTable\<close>.\<close>

record 'k routing =
  rt_insert :: "ip_addr \<Rightarrow> 'k \<Rightarrow> (io_error + unit) \<times> 'k"
  rt_remove :: "ip_addr \<Rightarrow> 'k \<Rightarrow> (io_error + unit) \<times> 'k"

record net_route_handle =
  if_index :: u32

definition from_handle :: "u32 \<Rightarrow> net_route_handle" where
  "from_handle index = \<lparr>if_index = index\<rparr>"

definition net_route_handle_new :: "(io_error + unit) \<Rightarrow> u32 \<Rightarrow> io_error + net_route_handle" where
  "net_route_handle_new opened index =
     (case opened of Inl e \<Rightarrow> Inl e | Inr _ \<Rightarrow> Inr (from_handle index))"

definition route_entry :: "net_route_handle \<Rightarrow> ip_addr \<Rightarrow> net_route" where
  "route_entry self dest_ip =
     (let prefix = (case dest_ip of V4 _ \<Rightarrow> 32 | V6 _ \<Rightarrow> 128)
      in \<lparr>destination = dest_ip, prefix = prefix, ifindex = Some (if_index self)\<rparr>)"

definition net_insert ::
  "'k os_routes \<Rightarrow> nat list \<Rightarrow> net_route_handle \<Rightarrow> ip_addr \<Rightarrow> 'k \<Rightarrow> (io_error + unit) \<times> 'k" where
  "net_insert os backoff self dest_ip k =
     (let route = route_entry self dest_ip
      in retry_on_windows_not_found backoff (os_add os route) k)"

definition net_remove ::
  "'k os_routes \<Rightarrow> nat list \<Rightarrow> net_route_handle \<Rightarrow> ip_addr \<Rightarrow> 'k \<Rightarrow> (io_error + unit) \<times> 'k" where
  "net_remove os backoff self dest_ip k =
     (let route = route_entry self dest_ip
      in retry_on_windows_not_found backoff (os_delete os route) k)"

definition net_routing :: "'k os_routes \<Rightarrow> nat list \<Rightarrow> net_route_handle \<Rightarrow> 'k routing" where
  "net_routing os backoff self =
     \<lparr>rt_insert = net_insert os backoff self, rt_remove = net_remove os backoff self\<rparr>"

section \<open>The guard of a route\<close>

datatype scoped_route = ScopedRoute (dest_ip: ip_addr)

definition scoped_new :: "'k routing \<Rightarrow> ip_addr \<Rightarrow> 'k \<Rightarrow> (io_error + scoped_route) \<times> 'k" where
  "scoped_new handle ip k =
     (case rt_insert handle ip k of
        (Inl e, k') \<Rightarrow> (Inl e, k')
      | (Inr _, k') \<Rightarrow> (Inr (ScopedRoute ip), k'))"

text \<open>The destructor.\<close>

definition scoped_drop :: "scoped_route \<Rightarrow> unit outcome" where
  "scoped_drop self =
     (if \<not> is_unspecified (dest_ip self)
      then Panic (''ScopedRoute for '' @ show_ip (dest_ip self) @
                  '' was dropped without calling drop_async() first'')
      else Done ())"

text \<open>\<^verbatim>\<open>drop_async\<close> takes the address out of the guard, and the destructor runs on what is left.\<close>

definition drop_async :: "'k routing \<Rightarrow> scoped_route \<Rightarrow> 'k \<Rightarrow> ((io_error + ip_addr) \<times> 'k) outcome" where
  "drop_async handle self k =
     (let ip = dest_ip self;
          self = ScopedRoute (V6 0);
          (result, k') = rt_remove handle ip k
      in bind_outcome (scoped_drop self)
           (\<lambda>_. Done (case result of Inl e \<Rightarrow> Inl e | Inr _ \<Rightarrow> Inr ip, k')))"

section \<open>What the operating system promises\<close>

text \<open>
  A successful request has its effect and no other; a failed one may have been applied or not, but
  touches no other route.
\<close>

locale os_route_contract =
  fixes os :: "'k os_routes" and installed :: "'k \<Rightarrow> net_route set"
  assumes add_ok: "os_add os r k = (Inr u, k') \<Longrightarrow> installed k' = insert r (installed k)"
    and add_err: "os_add os r k = (Inl e, k') \<Longrightarrow>
      installed k \<subseteq> installed k' \<and> installed k' \<subseteq> insert r (installed k)"
    and delete_ok: "os_delete os r k = (Inr u, k') \<Longrightarrow> installed k' = installed k - {r}"
    and delete_err: "os_delete os r k = (Inl e, k') \<Longrightarrow>
      installed k - {r} \<subseteq> installed k' \<and> installed k' \<subseteq> installed k"

section \<open>What a routing table promises\<close>

locale routing_table =
  fixes rt :: "'k routing" and routes :: "'k \<Rightarrow> ip_addr set"
  assumes insert_ok: "rt_insert rt ip k = (Inr u, k') \<Longrightarrow> routes k' = insert ip (routes k)"
    and insert_err: "rt_insert rt ip k = (Inl e, k') \<Longrightarrow>
      routes k \<subseteq> routes k' \<and> routes k' \<subseteq> insert ip (routes k)"
    and remove_ok: "rt_remove rt ip k = (Inr u, k') \<Longrightarrow> routes k' = routes k - {ip}"
    and remove_err: "rt_remove rt ip k = (Inl e, k') \<Longrightarrow>
      routes k - {ip} \<subseteq> routes k' \<and> routes k' \<subseteq> routes k"
begin

lemma insert_bounds:
  assumes "rt_insert rt ip k = (r, k')"
  shows "routes k \<subseteq> routes k'" "routes k' \<subseteq> insert ip (routes k)"
  using assms insert_ok [of ip k] insert_err [of ip k] by (cases r; blast)+

lemma remove_bounds:
  assumes "rt_remove rt ip k = (r, k')"
  shows "routes k - {ip} \<subseteq> routes k'" "routes k' \<subseteq> routes k"
  using assms remove_ok [of ip k] remove_err [of ip k] by (cases r; blast)+

lemma scoped_new_ok:
  assumes "scoped_new rt ip k = (Inr route, k')"
  shows "route = ScopedRoute ip" "routes k' = insert ip (routes k)"
  using assms insert_ok [of ip k] by (auto simp: scoped_new_def split: prod.splits sum.splits)

lemma scoped_new_bounds:
  assumes "scoped_new rt ip k = (r, k')"
  shows "routes k \<subseteq> routes k'" "routes k' \<subseteq> insert ip (routes k)"
  using assms insert_bounds [of ip k] by (auto simp: scoped_new_def split: prod.splits sum.splits)

end

section \<open>Facts\<close>

lemma retry_simps:
  "operation s = (Inr x, s') \<Longrightarrow> retry_on_windows_not_found ds operation s = (Inr x, s')"
  "operation s = (Inl err, s') \<Longrightarrow> raw_os_error err \<noteq> Some WINDOWS_ERROR_NOT_FOUND \<Longrightarrow>
     retry_on_windows_not_found ds operation s = (Inl err, s')"
  "operation s = (Inl err, s') \<Longrightarrow> retry_on_windows_not_found [] operation s = (Inl err, s')"
  "operation s = (Inl err, s') \<Longrightarrow> raw_os_error err = Some WINDOWS_ERROR_NOT_FOUND \<Longrightarrow>
     retry_on_windows_not_found (d # ds) operation s = retry_on_windows_not_found ds operation s'"
  by (simp_all add: retry_on_windows_not_found.simps)

text \<open>A predicate that every failed attempt keeps holds before the attempt that ends the retry.\<close>

lemma retry_final_attempt:
  assumes "retry_on_windows_not_found ds operation s = (r, s')" and "P s"
    and "\<And>t e t'. P t \<Longrightarrow> operation t = (Inl e, t') \<Longrightarrow> P t'"
  shows "\<exists>t. P t \<and> operation t = (r, s')"
  using assms(1,2)
proof (induction ds arbitrary: s)
  case Nil
  then show ?case
    by (auto simp: retry_on_windows_not_found.simps [of "[]"] split: prod.splits sum.splits if_splits)
next
  case (Cons d ds)
  obtain q t where q: "operation s = (q, t)" by fastforce
  show ?case
  proof (cases "\<exists>err. q = Inl err \<and> raw_os_error err = Some WINDOWS_ERROR_NOT_FOUND")
    case True
    then obtain err where e: "operation s = (Inl err, t)"
        and t: "raw_os_error err = Some WINDOWS_ERROR_NOT_FOUND"
      using q by blast
    have "retry_on_windows_not_found ds operation t = (r, s')"
      using Cons.prems(1) unfolding retry_simps(4) [of operation, OF e t] .
    moreover have "P t"
      using assms(3) Cons.prems(2) e by blast
    ultimately show ?thesis by (rule Cons.IH)
  next
    case False
    then have "operation s = (r, s')"
      using Cons.prems(1) q by (cases q) (auto simp: retry_simps)
    then show ?thesis using Cons.prems(2) by blast
  qed
qed

lemma drop_async_Done:
  "drop_async rt route k =
     Done (case fst (rt_remove rt (dest_ip route) k) of Inl e \<Rightarrow> Inl e | Inr _ \<Rightarrow> Inr (dest_ip route),
           snd (rt_remove rt (dest_ip route) k))"
  by (simp add: drop_async_def scoped_drop_def Let_def split: prod.splits)

lemma route_entry_inject [simp]: "route_entry h a = route_entry h b \<longleftrightarrow> a = b"
  by (auto simp: route_entry_def Let_def)

section \<open>The host routes of an interface\<close>

definition host_routes :: "('k \<Rightarrow> net_route set) \<Rightarrow> net_route_handle \<Rightarrow> 'k \<Rightarrow> ip_addr set" where
  "host_routes installed h k = {ip. route_entry h ip \<in> installed k}"

context os_route_contract
begin

lemma net_insert_final:
  assumes "net_insert os ds h ip k = (r, k')"
  shows "\<exists>t. installed k \<subseteq> installed t \<and> installed t \<subseteq> insert (route_entry h ip) (installed k) \<and>
    os_add os (route_entry h ip) t = (r, k')"
proof -
  let ?P = "\<lambda>t. installed k \<subseteq> installed t \<and> installed t \<subseteq> insert (route_entry h ip) (installed k)"
  have "\<exists>t. ?P t \<and> os_add os (route_entry h ip) t = (r, k')"
  proof (rule retry_final_attempt)
    show "retry_on_windows_not_found ds (os_add os (route_entry h ip)) k = (r, k')"
      using assms by (simp add: net_insert_def)
    show "?P t'" if "?P t" and "os_add os (route_entry h ip) t = (Inl e, t')" for t e t'
      using that add_err [OF that(2)] by blast
  qed blast
  then show ?thesis by blast
qed

lemma net_remove_final:
  assumes "net_remove os ds h ip k = (r, k')"
  shows "\<exists>t. installed k - {route_entry h ip} \<subseteq> installed t \<and> installed t \<subseteq> installed k \<and>
    os_delete os (route_entry h ip) t = (r, k')"
proof -
  let ?P = "\<lambda>t. installed k - {route_entry h ip} \<subseteq> installed t \<and> installed t \<subseteq> installed k"
  have "\<exists>t. ?P t \<and> os_delete os (route_entry h ip) t = (r, k')"
  proof (rule retry_final_attempt)
    show "retry_on_windows_not_found ds (os_delete os (route_entry h ip)) k = (r, k')"
      using assms by (simp add: net_remove_def)
    show "?P t'" if "?P t" and "os_delete os (route_entry h ip) t = (Inl e, t')" for t e t'
      using that delete_err [OF that(2)] by blast
  qed blast
  then show ?thesis by blast
qed

lemma net_insert_installed:
  assumes "net_insert os ds h ip k = (r, k')"
  shows "installed k \<subseteq> installed k'" "installed k' \<subseteq> insert (route_entry h ip) (installed k)"
    "r = Inr u \<Longrightarrow> installed k' = insert (route_entry h ip) (installed k)"
proof -
  obtain t where t: "installed k \<subseteq> installed t" "installed t \<subseteq> insert (route_entry h ip) (installed k)"
      and a: "os_add os (route_entry h ip) t = (r, k')"
    using net_insert_final [OF assms] by blast
  show "installed k' = insert (route_entry h ip) (installed k)" if "r = Inr u"
    using t add_ok [OF a [unfolded that]] by blast
  have "installed t \<subseteq> installed k' \<and> installed k' \<subseteq> insert (route_entry h ip) (installed t)"
    using a add_ok [of "route_entry h ip" t] add_err [of "route_entry h ip" t] by (cases r) blast+
  with t show "installed k \<subseteq> installed k'" "installed k' \<subseteq> insert (route_entry h ip) (installed k)"
    by blast+
qed

lemma net_remove_installed:
  assumes "net_remove os ds h ip k = (r, k')"
  shows "installed k - {route_entry h ip} \<subseteq> installed k'" "installed k' \<subseteq> installed k"
    "r = Inr u \<Longrightarrow> installed k' = installed k - {route_entry h ip}"
proof -
  obtain t where t: "installed k - {route_entry h ip} \<subseteq> installed t" "installed t \<subseteq> installed k"
      and a: "os_delete os (route_entry h ip) t = (r, k')"
    using net_remove_final [OF assms] by blast
  show "installed k' = installed k - {route_entry h ip}" if "r = Inr u"
    using t delete_ok [OF a [unfolded that]] by blast
  have "installed t - {route_entry h ip} \<subseteq> installed k' \<and> installed k' \<subseteq> installed t"
    using a delete_ok [of "route_entry h ip" t] delete_err [of "route_entry h ip" t] by (cases r) blast+
  with t show "installed k - {route_entry h ip} \<subseteq> installed k'" "installed k' \<subseteq> installed k"
    by blast+
qed

end

text \<open>
  A handle on an operating system that keeps its promises is a routing table: retrying never
  leaves a trace of its own.
\<close>

sublocale os_route_contract \<subseteq> host: routing_table "net_routing os ds h" "host_routes installed h"
  for ds h
proof unfold_locales
  fix ip k k' u e
  show "host_routes installed h k' = insert ip (host_routes installed h k)"
    if "rt_insert (net_routing os ds h) ip k = (Inr u, k')"
    using net_insert_installed(3) [of ds h ip k "Inr u" k'] that
    by (auto simp: net_routing_def host_routes_def)
  show "host_routes installed h k \<subseteq> host_routes installed h k' \<and>
      host_routes installed h k' \<subseteq> insert ip (host_routes installed h k)"
    if "rt_insert (net_routing os ds h) ip k = (Inl e, k')"
    using net_insert_installed(1,2) [of ds h ip k "Inl e" k'] that
    by (auto simp: net_routing_def host_routes_def)
  show "host_routes installed h k' = host_routes installed h k - {ip}"
    if "rt_remove (net_routing os ds h) ip k = (Inr u, k')"
    using net_remove_installed(3) [of ds h ip k "Inr u" k'] that
    by (auto simp: net_routing_def host_routes_def)
  show "host_routes installed h k - {ip} \<subseteq> host_routes installed h k' \<and>
      host_routes installed h k' \<subseteq> host_routes installed h k"
    if "rt_remove (net_routing os ds h) ip k = (Inl e, k')"
    using net_remove_installed(1,2) [of ds h ip k "Inl e" k'] that
    by (auto simp: net_routing_def host_routes_def)
qed

section \<open>A routing table of a kernel\<close>

text \<open>
  A forwarding table that refuses duplicates and missing entries, and that answers
  \<^verbatim>\<open>ERROR_NOT_FOUND\<close> as long as the adapter is not registered: the number counts the requests it
  still refuses.
\<close>

record fib =
  fib_routes :: "net_route list"
  fib_warmup :: nat

definition os_error :: "int \<Rightarrow> error_kind \<Rightarrow> io_error" where
  "os_error n k = \<lparr>io_kind = k, raw_os_error = Some n, io_message = []\<rparr>"

definition fib_add :: "net_route \<Rightarrow> fib \<Rightarrow> (io_error + unit) \<times> fib" where
  "fib_add r k =
     (if 0 < fib_warmup k
      then (Inl (os_error WINDOWS_ERROR_NOT_FOUND K_NotFound), k\<lparr>fib_warmup := fib_warmup k - 1\<rparr>)
      else if r \<in> set (fib_routes k) then (Inl (os_error 17 K_AlreadyExists), k)
      else (Inr (), k\<lparr>fib_routes := r # fib_routes k\<rparr>))"

definition fib_delete :: "net_route \<Rightarrow> fib \<Rightarrow> (io_error + unit) \<times> fib" where
  "fib_delete r k =
     (if 0 < fib_warmup k
      then (Inl (os_error WINDOWS_ERROR_NOT_FOUND K_NotFound), k\<lparr>fib_warmup := fib_warmup k - 1\<rparr>)
      else if r \<in> set (fib_routes k)
      then (Inr (), k\<lparr>fib_routes := filter (\<lambda>x. x \<noteq> r) (fib_routes k)\<rparr>)
      else (Inl (os_error 3 K_NotFound), k))"

definition fib_os :: "fib os_routes" where
  "fib_os = \<lparr>os_add = fib_add, os_delete = fib_delete\<rparr>"

interpretation fib: os_route_contract fib_os "\<lambda>k. set (fib_routes k)"
  by unfold_locales (auto simp: fib_os_def fib_add_def fib_delete_def split: if_splits)

section \<open>Properties\<close>

text \<open>(C31) The retry makes exactly the attempts it should: with a budget of \<open>length ds\<close> delays, an
  operation that answers \<open>n\<close> times with the transient error and then with another result is
  attempted \<open>n + 1\<close> times and gives that result when \<open>n\<close> is within the budget; otherwise it is
  attempted once more than there are delays and the last transient error is returned.\<close>

theorem retry_attempts:
  fixes answers :: "nat \<Rightarrow> io_error + 'a"
  assumes "\<forall>i < n. \<exists>e. answers i = Inl e \<and> raw_os_error e = Some WINDOWS_ERROR_NOT_FOUND"
    and "\<forall>e. answers n = Inl e \<longrightarrow> raw_os_error e \<noteq> Some WINDOWS_ERROR_NOT_FOUND"
  shows "retry_on_windows_not_found ds (\<lambda>i. (answers i, Suc i)) 0 =
    (if n \<le> length ds then (answers n, Suc n) else (answers (length ds), Suc (length ds)))"
proof -
  have "retry_on_windows_not_found ds (\<lambda>i. (answers i, Suc i)) i =
      (if n \<le> i + length ds then (answers n, Suc n) else (answers (i + length ds), Suc (i + length ds)))"
    if "i \<le> n" for i
    using that
  proof (induction ds arbitrary: i)
    case Nil
    then show ?case
      using assms by (cases "answers i") (auto simp: retry_simps)
  next
    case (Cons d ds)
    show ?case
    proof (cases "i = n")
      case True
      then show ?thesis using assms(2) by (cases "answers i") (simp_all add: retry_simps)
    next
      case False
      then obtain e where "answers i = Inl e" "raw_os_error e = Some WINDOWS_ERROR_NOT_FOUND"
        using assms(1) Cons.prems by (metis order_le_neq_trans)
      then show ?thesis
        using Cons.IH [of "Suc i"] Cons.prems False by (simp add: retry_simps)
    qed
  qed
  from this [of 0] show ?thesis by simp
qed

theorem retry_attempts_witness:
  "let answers = (\<lambda>i. if i < 2 then Inl (os_error 1168 K_NotFound) else Inr ()) in
     retry_on_windows_not_found [50, 100, 200] (\<lambda>i. (answers i, Suc i)) 0 = (Inr (), 3) \<and>
     retry_on_windows_not_found [50] (\<lambda>i. (answers i, Suc i)) 0 =
       (Inl (os_error 1168 K_NotFound), 2)"
  using retry_attempts [of 2 "\<lambda>i. if i < 2 then Inl (os_error 1168 K_NotFound) else Inr ()"]
  by (simp add: os_error_def WINDOWS_ERROR_NOT_FOUND_def)



text \<open>The guard enforces the disposal: dropping a live guard panics, for every address but the
  unspecified one; disposing of it with \<^verbatim>\<open>drop_async\<close> never panics, whether or not the
  operating system removes the route, and asks for the removal of the guarded address.\<close>

lemma scoped_route_guard:
  "(panics (scoped_drop route) \<longleftrightarrow> \<not> is_unspecified (dest_ip route)) \<and>
   \<not> panics (drop_async rt route k) \<and>
   (\<exists>res. drop_async rt route k = Done (res, snd (rt_remove rt (dest_ip route) k)) \<and>
      (is_ok res \<longleftrightarrow> is_ok (fst (rt_remove rt (dest_ip route) k))))"
  by (simp add: drop_async_Done scoped_drop_def split: sum.splits)

end
