(* ===== verification/Relay.thy ===== *)
theory Relay
  imports Route
begin

text \<open>
  The relay (\<^verbatim>\<open>src/relay.rs\<close>): the map from addresses to peers, and the routes it installs and
  tears down. \<^verbatim>\<open>Relay::insert\<close> runs one future per address under \<^verbatim>\<open>try_join_all\<close>; the futures
  are a step relation, in which any of them may make progress next, and the sequential schedule is
  also given as a function. The operating system's state travels with the map.
\<close>

section \<open>State\<close>

record 't peer_value =
  pv_value :: "'t option"
  pv_route :: scoped_route

datatype 't dispatch = Connected 't | Parked

record ('t, 'k) relay =
  os :: 'k
  peer_map :: "ip_addr \<rightharpoonup> 't peer_value"

definition relay_new :: "'k \<Rightarrow> ('t, 'k) relay" where
  "relay_new k = \<lparr>os = k, peer_map = Map.empty\<rparr>"

definition relay_get :: "('t, 'k) relay \<Rightarrow> ip_addr \<Rightarrow> 't dispatch option" where
  "relay_get self ip =
     map_option (\<lambda>e. case pv_value e of Some v \<Rightarrow> Connected v | None \<Rightarrow> Parked) (peer_map self ip)"

section \<open>Removing and parking\<close>

definition remove_one :: "'k routing \<Rightarrow> ip_addr \<Rightarrow> ('t, 'k) relay \<Rightarrow> ('t, 'k) relay outcome" where
  "remove_one locked ip self =
     (case peer_map self ip of
        Some old \<Rightarrow>
          bind_outcome (drop_async locked (pv_route old) (os self))
            (\<lambda>(_, k). Done (self\<lparr>os := k, peer_map := (peer_map self)(ip := None)\<rparr>))
      | None \<Rightarrow> Done (self\<lparr>os := snd (rt_remove locked ip (os self))\<rparr>))"

fun remove_locked :: "'k routing \<Rightarrow> ip_addr list \<Rightarrow> ('t, 'k) relay \<Rightarrow> ('t, 'k) relay outcome" where
  "remove_locked locked [] self = Done self"
| "remove_locked locked (ip # dest_ips) self =
     bind_outcome (remove_one locked ip self) (remove_locked locked dest_ips)"

definition relay_remove :: "'k routing \<Rightarrow> ip_addr list \<Rightarrow> ('t, 'k) relay \<Rightarrow> ('t, 'k) relay outcome" where
  "relay_remove handle dest_ips self = remove_locked handle dest_ips self"

fun park :: "ip_addr list \<Rightarrow> ('t, 'k) relay \<Rightarrow> ('t, 'k) relay" where
  "park [] self = self"
| "park (ip # dest_ips) self =
     park dest_ips
       (case peer_map self ip of
          Some entry \<Rightarrow> self\<lparr>peer_map := (peer_map self)(ip \<mapsto> entry\<lparr>pv_value := None\<rparr>)\<rparr>
        | None \<Rightarrow> self)"

section \<open>Inserting\<close>

text \<open>
  The future of one address: not polled yet, waiting for the operating system to add the route, or
  finished.
\<close>

datatype fut = Unpolled | Inserting | Finished "io_error + unit"

definition poll_start :: "'t \<Rightarrow> ip_addr \<Rightarrow> ('t, 'k) relay \<Rightarrow> fut \<times> ('t, 'k) relay" where
  "poll_start val ip self =
     (case peer_map self ip of
        Some entry \<Rightarrow>
          (Finished (Inr ()),
           self\<lparr>peer_map := (peer_map self)(ip \<mapsto> entry\<lparr>pv_value := Some val\<rparr>)\<rparr>)
      | None \<Rightarrow> (Inserting, self))"

text \<open>
  When the operating system answers, the entry goes into the map; an entry that it replaces is
  dropped, and with it the guard of its route.
\<close>

definition poll_resume ::
  "'k routing \<Rightarrow> 't \<Rightarrow> ip_addr \<Rightarrow> ('t, 'k) relay \<Rightarrow> (fut \<times> ('t, 'k) relay) outcome" where
  "poll_resume locked val ip self =
     (case scoped_new locked ip (os self) of
        (Inl err, k) \<Rightarrow> Done (Finished (Inl err), self\<lparr>os := k\<rparr>)
      | (Inr scoped, k) \<Rightarrow>
          bind_outcome
            (case peer_map self ip of Some replaced \<Rightarrow> scoped_drop (pv_route replaced) | None \<Rightarrow> Done ())
            (\<lambda>_. Done (Finished (Inr ()),
               self\<lparr>os := k,
                    peer_map := (peer_map self)(ip \<mapsto> \<lparr>pv_value = Some val, pv_route = scoped\<rparr>)\<rparr>)))"

definition has_failed :: "fut list \<Rightarrow> bool" where
  "has_failed futs = list_ex (\<lambda>f. case f of Finished (Inl e) \<Rightarrow> True | _ \<Rightarrow> False) futs"

type_synonym ('t, 'k) insertion = "('t, 'k) relay \<times> fut list"

text \<open>\<^verbatim>\<open>try_join_all\<close> polls any future that can make progress, until one has failed.\<close>

inductive insert_step ::
  "'k routing \<Rightarrow> 't \<Rightarrow> ip_addr list \<Rightarrow> ('t, 'k) insertion \<Rightarrow> ('t, 'k) insertion outcome \<Rightarrow> bool"
  for locked :: "'k routing" and val :: 't and ips :: "ip_addr list" where
  poll_started: "\<not> has_failed futs \<Longrightarrow> i < length ips \<Longrightarrow> futs ! i = Unpolled \<Longrightarrow>
    poll_start val (ips ! i) self = (f, self') \<Longrightarrow>
    insert_step locked val ips (self, futs) (Done (self', futs[i := f]))"
| poll_resumed: "\<not> has_failed futs \<Longrightarrow> i < length ips \<Longrightarrow> futs ! i = Inserting \<Longrightarrow>
    poll_resume locked val (ips ! i) self = Done (f, self') \<Longrightarrow>
    insert_step locked val ips (self, futs) (Done (self', futs[i := f]))"
| poll_panicked: "\<not> has_failed futs \<Longrightarrow> i < length ips \<Longrightarrow> futs ! i = Inserting \<Longrightarrow>
    poll_resume locked val (ips ! i) self = Panic m \<Longrightarrow>
    insert_step locked val ips (self, futs) (Panic m)"

inductive insert_run ::
  "'k routing \<Rightarrow> 't \<Rightarrow> ip_addr list \<Rightarrow> ('t, 'k) insertion \<Rightarrow> ('t, 'k) insertion outcome \<Rightarrow> bool"
  for locked :: "'k routing" and val :: 't and ips :: "ip_addr list" where
  run_refl: "insert_run locked val ips c (Done c)"
| run_step: "insert_run locked val ips c (Done d) \<Longrightarrow> insert_step locked val ips d r \<Longrightarrow>
    insert_run locked val ips c r"

text \<open>
  The futures that are dropped while they wait: the operating system may or may not still apply
  what they asked for.
\<close>

inductive cancelled :: "'k routing \<Rightarrow> (ip_addr \<times> fut) list \<Rightarrow> 'k \<Rightarrow> 'k \<Rightarrow> bool"
  for locked :: "'k routing" where
  cancel_none: "cancelled locked [] k k"
| cancel_skip: "cancelled locked fs k k' \<Longrightarrow> cancelled locked ((ip, f) # fs) k k'"
| cancel_applied: "rt_insert locked ip k = (r, k') \<Longrightarrow> cancelled locked fs k' k'' \<Longrightarrow>
    cancelled locked ((ip, Inserting) # fs) k k''"

definition unpolled :: "ip_addr list \<Rightarrow> fut list" where
  "unpolled ips = replicate (length ips) Unpolled"

definition all_ok :: "fut list \<Rightarrow> bool" where
  "all_ok futs = list_all (\<lambda>f. f = Finished (Inr ())) futs"

text \<open>The whole of \<^verbatim>\<open>Relay::insert\<close>, with the roll-back of a failed batch.\<close>

inductive relay_insert ::
  "'k routing \<Rightarrow> status_api \<Rightarrow> ip_addr list \<Rightarrow> 't \<Rightarrow> ('t, 'k) relay \<Rightarrow>
   ((thin_status + unit) \<times> ('t, 'k) relay) outcome \<Rightarrow> bool"
  for handle :: "'k routing" and st :: status_api and ips :: "ip_addr list" and val :: 't where
  insert_all_ok: "insert_run handle val ips (self, unpolled ips) (Done (self', futs)) \<Longrightarrow> all_ok futs \<Longrightarrow>
    relay_insert handle st ips val self (Done (Inr (), self'))"
| insert_rolled_back: "insert_run handle val ips (self, unpolled ips) (Done (self', futs)) \<Longrightarrow>
    Finished (Inl e) \<in> set futs \<Longrightarrow> cancelled handle (zip ips futs) (os self') k \<Longrightarrow>
    relay_insert handle st ips val self
      (bind_outcome (remove_locked handle ips (self'\<lparr>os := k\<rparr>))
        (\<lambda>self''. Done (Inl (status_of_io st e), self'')))"
| insert_panicked: "insert_run handle val ips (self, unpolled ips) (Panic m) \<Longrightarrow>
    relay_insert handle st ips val self (Panic m)"

text \<open>
  The schedule in which every request is answered at once, as a function; it is what the futures do
  on a routing table that never waits.
\<close>

fun insert_seq ::
  "'k routing \<Rightarrow> 't \<Rightarrow> ip_addr list \<Rightarrow> ('t, 'k) relay \<Rightarrow> ((io_error + unit) \<times> ('t, 'k) relay) outcome" where
  "insert_seq locked val [] self = Done (Inr (), self)"
| "insert_seq locked val (ip # ips) self =
     (case poll_start val ip self of
        (Finished r, self') \<Rightarrow> insert_seq locked val ips self'
      | (_, self') \<Rightarrow>
          bind_outcome (poll_resume locked val ip self')
            (\<lambda>(f, self''). case f of
               Finished (Inl e) \<Rightarrow> Done (Inl e, self'')
             | _ \<Rightarrow> insert_seq locked val ips self''))"

definition relay_insert_seq ::
  "'k routing \<Rightarrow> status_api \<Rightarrow> ip_addr list \<Rightarrow> 't \<Rightarrow> ('t, 'k) relay \<Rightarrow>
   ((thin_status + unit) \<times> ('t, 'k) relay) outcome" where
  "relay_insert_seq handle st ips val self =
     bind_outcome (insert_seq handle val ips self)
       (\<lambda>(r, self'). case r of
          Inr _ \<Rightarrow> Done (Inr (), self')
        | Inl e \<Rightarrow>
            bind_outcome (remove_locked handle ips self')
              (\<lambda>self''. Done (Inl (status_of_io st e), self'')))"

section \<open>Reconciling\<close>

definition stale :: "ip_addr list \<Rightarrow> ip_addr list \<Rightarrow> ip_addr list" where
  "stale current previous = filter (\<lambda>ip. ip \<notin> set current) previous"

definition remove_stale ::
  "'k routing \<Rightarrow> ip_addr list \<Rightarrow> ip_addr list \<Rightarrow> ('t, 'k) relay \<Rightarrow> ('t, 'k) relay outcome" where
  "remove_stale handle current previous self =
     (if stale current previous \<noteq> [] then relay_remove handle (stale current previous) self
      else Done self)"

inductive reconcile ::
  "'k routing \<Rightarrow> status_api \<Rightarrow> ip_addr list \<Rightarrow> ip_addr list \<Rightarrow> 't \<Rightarrow> ('t, 'k) relay \<Rightarrow>
   ((thin_status + unit) \<times> ('t, 'k) relay) outcome \<Rightarrow> bool"
  for handle :: "'k routing" and st :: status_api and current :: "ip_addr list"
    and previous :: "ip_addr list" and val :: 't where
  reconcile_insert: "remove_stale handle current previous self = Done self' \<Longrightarrow>
    relay_insert handle st current val self' r \<Longrightarrow>
    reconcile handle st current previous val self r"
| reconcile_panic: "remove_stale handle current previous self = Panic m \<Longrightarrow>
    reconcile handle st current previous val self (Panic m)"

inductive_cases insert_stepE [elim]: "insert_step locked val ips (self, futs) r"
inductive_cases relay_insertE: "relay_insert handle st ips val self r"
inductive_cases reconcileE: "reconcile handle st current previous val self r"

section \<open>Single polls\<close>

lemma has_failed_iff: "has_failed futs \<longleftrightarrow> (\<exists>e. Finished (Inl e) \<in> set futs)"
  by (induction futs) (auto simp: has_failed_def split: fut.splits sum.splits)

lemma has_failed_unpolled [simp]: "\<not> has_failed (unpolled ips)"
  by (simp add: has_failed_iff unpolled_def)

lemma length_unpolled [simp]: "length (unpolled ips) = length ips"
  by (simp add: unpolled_def)

lemma poll_start_cases:
  assumes "poll_start val ip self = (f, self')"
  obtains (rearm) e where "peer_map self ip = Some e" "f = Finished (Inr ())"
      "self' = self\<lparr>peer_map := (peer_map self)(ip \<mapsto> e\<lparr>pv_value := Some val\<rparr>)\<rparr>"
    | (wait) "peer_map self ip = None" "f = Inserting" "self' = self"
  using assms by (auto simp: poll_start_def split: option.splits)

lemma poll_resume_cases:
  assumes "poll_resume locked val ip self = Done (f, self')"
  obtains (failed) e k where "scoped_new locked ip (os self) = (Inl e, k)" "f = Finished (Inl e)"
      "self' = self\<lparr>os := k\<rparr>"
    | (added) scoped k where "scoped_new locked ip (os self) = (Inr scoped, k)" "f = Finished (Inr ())"
      "self' = self\<lparr>os := k, peer_map := (peer_map self)(ip \<mapsto> \<lparr>pv_value = Some val, pv_route = scoped\<rparr>)\<rparr>"
  using assms
  by (auto simp: poll_resume_def bind_outcome_Done_iff split: prod.splits sum.splits)

lemma poll_resume_no_panic: "peer_map self ip = None \<Longrightarrow> poll_resume locked val ip self \<noteq> Panic m"
  by (auto simp: poll_resume_def split: prod.splits sum.splits)

section \<open>Runs\<close>

lemma insert_run_invariant:
  assumes "insert_run locked val ips c r" and "r = Done d" and "P c"
    and "\<And>self futs self' futs'. P (self, futs) \<Longrightarrow>
      insert_step locked val ips (self, futs) (Done (self', futs')) \<Longrightarrow> P (self', futs')"
  shows "P d"
  using assms(1-3)
proof (induction arbitrary: d)
  case run_refl
  then show ?case by simp
next
  case (run_step c d' r)
  then show ?case using assms(4) by (cases d'; cases d) blast
qed

text \<open>What a run keeps, whatever the operating system does.\<close>

definition run_frame ::
  "'t \<Rightarrow> ip_addr list \<Rightarrow> ('t, 'k) relay \<Rightarrow> ('t, 'k) insertion \<Rightarrow> bool" where
  "run_frame val ips self0 c =
     (length (snd c) = length ips \<and>
      (\<forall>ip. ip \<notin> set ips \<longrightarrow> peer_map (fst c) ip = peer_map self0 ip) \<and>
      (\<forall>i < length ips. snd c ! i = Finished (Inr ()) \<longrightarrow> relay_get (fst c) (ips ! i) = Some (Connected val)))"

lemma relay_get_upd [simp]:
  "relay_get (self\<lparr>peer_map := (peer_map self)(ip \<mapsto> e)\<rparr>) x =
     (if x = ip then Some (case pv_value e of Some v \<Rightarrow> Connected v | None \<Rightarrow> Parked) else relay_get self x)"
  "relay_get (self\<lparr>os := k, peer_map := (peer_map self)(ip \<mapsto> e)\<rparr>) x =
     (if x = ip then Some (case pv_value e of Some v \<Rightarrow> Connected v | None \<Rightarrow> Parked) else relay_get self x)"
  "relay_get (self\<lparr>os := k\<rparr>) x = relay_get self x"
  by (simp_all add: relay_get_def)

lemma run_frame_step:
  assumes "run_frame val ips self0 (self, futs)"
    and "insert_step locked val ips (self, futs) (Done (self', futs'))"
  shows "run_frame val ips self0 (self', futs')"
  using assms(2)
proof cases
  case (poll_started i f)
  from poll_started(5) show ?thesis
    by (cases rule: poll_start_cases) (use assms(1) poll_started in \<open>auto simp: run_frame_def nth_list_update\<close>)
next
  case (poll_resumed i f)
  from poll_resumed(5) show ?thesis
    by (cases rule: poll_resume_cases) (use assms(1) poll_resumed in \<open>auto simp: run_frame_def nth_list_update\<close>)
qed

lemma run_frame_run:
  assumes "insert_run locked val ips (self, unpolled ips) (Done (self', futs))"
  shows "run_frame val ips self (self', futs)"
proof (rule insert_run_invariant [OF assms refl])
  show "run_frame val ips self (self, unpolled ips)"
    by (simp add: run_frame_def unpolled_def)
qed (rule run_frame_step)

text \<open>With distinct addresses a waiting future has the address to itself.\<close>

definition run_apart :: "ip_addr list \<Rightarrow> ('t, 'k) insertion \<Rightarrow> bool" where
  "run_apart ips c =
     (length (snd c) = length ips \<and>
      (\<forall>i < length ips. snd c ! i = Inserting \<longrightarrow> peer_map (fst c) (ips ! i) = None))"

lemma run_apart_step:
  assumes "run_apart ips (self, futs)" and "distinct ips"
    and "insert_step locked val ips (self, futs) (Done (self', futs'))"
  shows "run_apart ips (self', futs')"
  using assms(3)
proof cases
  case (poll_started i f)
  from poll_started(5) show ?thesis
    by (cases rule: poll_start_cases)
      (use assms(1,2) poll_started in \<open>auto simp: run_apart_def nth_list_update nth_eq_iff_index_eq\<close>)
next
  case (poll_resumed i f)
  from poll_resumed(5) show ?thesis
    by (cases rule: poll_resume_cases)
      (use assms(1,2) poll_resumed in \<open>auto simp: run_apart_def nth_list_update nth_eq_iff_index_eq\<close>)
qed

lemma run_apart_run:
  assumes "insert_run locked val ips (self, unpolled ips) (Done d)" and "distinct ips"
  shows "run_apart ips d"
proof (rule insert_run_invariant [OF assms(1) refl])
  show "run_apart ips (self, unpolled ips)"
    by (simp add: run_apart_def unpolled_def)
qed (rule run_apart_step [OF _ assms(2)])

lemma run_apart_no_panic:
  assumes "run_apart ips (self, futs)" and "insert_step locked val ips (self, futs) r"
  shows "\<not> panics r"
  using assms(2) by cases (use assms(1) in \<open>auto simp: run_apart_def poll_resume_no_panic\<close>)

lemma insert_run_no_panic:
  assumes "insert_run locked val ips (self, unpolled ips) r" and "distinct ips"
  shows "\<not> panics r"
  using assms(1)
proof cases
  case (run_step d)
  then show ?thesis
    using run_apart_run [OF run_step(1) assms(2)] run_apart_no_panic by (metis surj_pair)
qed simp

section \<open>Removal\<close>

text \<open>Every entry guards the route of its own address.\<close>

definition guarded :: "('t, 'k) relay \<Rightarrow> bool" where
  "guarded self \<longleftrightarrow> (\<forall>ip e. peer_map self ip = Some e \<longrightarrow> dest_ip (pv_route e) = ip)"

definition removal :: "'k routing \<Rightarrow> ip_addr list \<Rightarrow> 'k \<Rightarrow> 'k" where
  "removal rt ips k = fold (\<lambda>ip k. snd (rt_remove rt ip k)) ips k"

lemma remove_one_eq:
  assumes "guarded self"
  shows "remove_one rt ip self =
    Done (self\<lparr>os := snd (rt_remove rt ip (os self)), peer_map := (peer_map self)(ip := None)\<rparr>)"
proof (cases "peer_map self ip")
  case None
  then have "(peer_map self)(ip := None) = peer_map self"
    by (simp add: fun_upd_idem)
  with None show ?thesis by (simp add: remove_one_def)
next
  case (Some e)
  with assms have "dest_ip (pv_route e) = ip" by (simp add: guarded_def)
  with Some show ?thesis by (simp add: remove_one_def drop_async_Done)
qed

lemma remove_locked_eq:
  "guarded self \<Longrightarrow>
     remove_locked rt ips self =
       Done (self\<lparr>os := removal rt ips (os self), peer_map := peer_map self |` (- set ips)\<rparr>)"
proof (induction ips arbitrary: self)
  case Nil
  then show ?case by (simp add: removal_def)
next
  case (Cons ip ips)
  let ?self = "self\<lparr>os := snd (rt_remove rt ip (os self)), peer_map := (peer_map self)(ip := None)\<rparr>"
  have "guarded ?self"
    using Cons.prems by (simp add: guarded_def)
  from Cons.IH [OF this]
  have "remove_locked rt (ip # ips) self =
      Done (?self\<lparr>os := removal rt ips (os ?self), peer_map := peer_map ?self |` (- set ips)\<rparr>)"
    by (simp only: remove_locked.simps remove_one_eq [OF Cons.prems] bind_outcome.simps)
  also have "\<dots> = Done (self\<lparr>os := removal rt (ip # ips) (os self), peer_map := peer_map self |` (- set (ip # ips))\<rparr>)"
    by (auto simp: removal_def fun_eq_iff restrict_map_def intro!: relay.equality)
  finally show ?case .
qed

lemma park_eq:
  "park ips self = self\<lparr>peer_map := (\<lambda>ip. if ip \<in> set ips
     then map_option (\<lambda>e. e\<lparr>pv_value := None\<rparr>) (peer_map self ip) else peer_map self ip)\<rparr>"
proof (induction ips arbitrary: self)
  case Nil
  then show ?case by simp
next
  case (Cons ip ips)
  show ?case
    unfolding park.simps Cons.IH
    by (cases "peer_map self ip") (auto simp: fun_eq_iff intro!: relay.equality)
qed

lemma relay_get_removed:
  "relay_get (self\<lparr>os := k, peer_map := peer_map self |` (- A)\<rparr>) ip =
     (if ip \<in> A then None else relay_get self ip)"
  by (simp add: relay_get_def)

section \<open>The invariant\<close>

definition relay_inv :: "('k \<Rightarrow> ip_addr set) \<Rightarrow> ('t, 'k) relay \<Rightarrow> bool" where
  "relay_inv routes self \<longleftrightarrow> guarded self \<and> dom (peer_map self) \<subseteq> routes (os self)"

lemma guarded_step:
  assumes "guarded self" and "insert_step locked val ips (self, futs) (Done (self', futs'))"
  shows "guarded self'"
  using assms(2)
proof cases
  case (poll_started i f)
  from poll_started(5) show ?thesis
    by (cases rule: poll_start_cases) (use assms(1) in \<open>auto simp: guarded_def split: if_splits\<close>)
next
  case (poll_resumed i f)
  from poll_resumed(5) show ?thesis
    by (cases rule: poll_resume_cases)
      (use assms(1) in \<open>auto simp: guarded_def scoped_new_def split: if_splits prod.splits sum.splits\<close>)
qed

lemma guarded_run:
  assumes "insert_run locked val ips (self, futs0) (Done (self', futs))" and "guarded self"
  shows "guarded self'"
proof -
  have "(\<lambda>c. guarded (fst c)) (self', futs)"
    by (rule insert_run_invariant [OF assms(1) refl]) (auto simp: assms(2) intro: guarded_step)
  then show ?thesis by simp
qed

context routing_table
begin

lemma removal_bounds:
  "routes (removal rt ips k) \<subseteq> routes k" "routes k - set ips \<subseteq> routes (removal rt ips k)"
proof (induction ips arbitrary: k)
  case Nil
  { case 1 show ?case by (simp add: removal_def) }
  { case 2 show ?case by (simp add: removal_def) }
next
  case (Cons ip ips)
  have b: "routes k - {ip} \<subseteq> routes (snd (rt_remove rt ip k))" "routes (snd (rt_remove rt ip k)) \<subseteq> routes k" for k
    using remove_bounds [OF surjective_pairing] by blast+
  have r: "removal rt (ip # ips) k = removal rt ips (snd (rt_remove rt ip k))" for k
    by (simp add: removal_def)
  { case 1 show ?case using Cons(1) [of "snd (rt_remove rt ip k)"] b [of k] unfolding r by blast }
  { case 2 show ?case using Cons(2) [of "snd (rt_remove rt ip k)"] b [of k] unfolding r by auto }
qed

lemma removal_all_ok:
  assumes "\<And>ip k. is_ok (fst (rt_remove rt ip k))"
  shows "routes (removal rt ips k) = routes k - set ips"
proof (induction ips arbitrary: k)
  case Nil
  show ?case by (simp add: removal_def)
next
  case (Cons ip ips)
  obtain u where "rt_remove rt ip k = (Inr u, snd (rt_remove rt ip k))"
    using assms [of ip k] by (metis is_ok_iff prod.collapse)
  from remove_ok [OF this] Cons.IH [of "snd (rt_remove rt ip k)"] show ?case
    by (auto simp: removal_def)
qed

lemma relay_inv_step:
  assumes "relay_inv routes self" and "insert_step rt val ips (self, futs) (Done (self', futs'))"
  shows "relay_inv routes self'"
proof -
  have "guarded self'"
    using guarded_step assms by (auto simp: relay_inv_def)
  moreover have "dom (peer_map self') \<subseteq> routes (os self')"
    using assms(2)
  proof cases
    case (poll_started i f)
    from poll_started(5) show ?thesis
      by (cases rule: poll_start_cases) (use assms(1) in \<open>auto simp: relay_inv_def\<close>)
  next
    case (poll_resumed i f)
    from poll_resumed(5) show ?thesis
    proof (cases rule: poll_resume_cases)
      case (failed e k)
      then show ?thesis
        using assms(1) scoped_new_bounds(1) [OF failed(1)] by (auto simp: relay_inv_def)
    next
      case (added scoped k)
      then show ?thesis
        using assms(1) scoped_new_ok(2) [OF added(1)] by (auto simp: relay_inv_def)
    qed
  qed
  ultimately show ?thesis by (simp add: relay_inv_def)
qed

lemma cancelled_routes:
  "cancelled rt fs k k' \<Longrightarrow> routes k \<subseteq> routes k' \<and> routes k' \<subseteq> routes k \<union> fst ` set fs"
proof (induction rule: cancelled.induct)
  case (cancel_applied ip k r k' fs k'')
  then show ?case using insert_bounds [OF cancel_applied(1)] by auto
qed auto

lemma relay_inv_cancelled:
  "relay_inv routes self \<Longrightarrow> cancelled rt fs (os self) k \<Longrightarrow> relay_inv routes (self\<lparr>os := k\<rparr>)"
  using cancelled_routes by (fastforce simp: relay_inv_def guarded_def)

lemma relay_inv_remove:
  assumes "relay_inv routes self" and "remove_locked rt ips self = Done self'"
  shows "relay_inv routes self'"
proof -
  have "guarded self" using assms(1) by (simp add: relay_inv_def)
  then have "self' = self\<lparr>os := removal rt ips (os self), peer_map := peer_map self |` (- set ips)\<rparr>"
    using assms(2) by (simp add: remove_locked_eq)
  moreover have "x \<in> routes (removal rt ips (os self))" if "peer_map self x = Some y" "x \<notin> set ips" for x y
    using that assms(1) removal_bounds(2) [of "os self" ips] by (auto simp: relay_inv_def)
  ultimately show ?thesis
    using assms(1) by (auto simp: relay_inv_def guarded_def restrict_map_def split: if_splits)
qed

lemma relay_inv_park: "relay_inv routes self \<Longrightarrow> relay_inv routes (park ips self)"
  by (auto simp: relay_inv_def guarded_def park_eq dom_def split: if_splits)

end

end
