(* ===== verification/Relay_Correct.thy ===== *)
theory Relay_Correct
  imports Relay
begin

text \<open>
  Correctness of the relay: the interleaving of its operations and the invariant that every
  reachable state keeps, the abstract table that the operations refine, termination of an
  insertion, and the mock routing table of the tests of \<^verbatim>\<open>src/relay.rs\<close>.
\<close>

section \<open>The routing table of the tests\<close>

record mock_route_handle =
  active_routes :: "ip_addr set"
  should_fail :: bool

definition mock_new :: mock_route_handle where
  "mock_new = \<lparr>active_routes = {}, should_fail = False\<rparr>"

definition mock_insert :: "ip_addr \<Rightarrow> mock_route_handle \<Rightarrow> (io_error + unit) \<times> mock_route_handle" where
  "mock_insert ip self =
     (if should_fail self
      then (Inl \<lparr>io_kind = K_PermissionDenied, raw_os_error = None,
                 io_message = ''Mock OS route insert error''\<rparr>, self)
      else (Inr (), self\<lparr>active_routes := insert ip (active_routes self)\<rparr>))"

definition mock_remove :: "ip_addr \<Rightarrow> mock_route_handle \<Rightarrow> (io_error + unit) \<times> mock_route_handle" where
  "mock_remove ip self = (Inr (), self\<lparr>active_routes := active_routes self - {ip}\<rparr>)"

definition mock_routing :: "mock_route_handle routing" where
  "mock_routing = \<lparr>rt_insert = mock_insert, rt_remove = mock_remove\<rparr>"

interpretation mock: routing_table mock_routing active_routes
  by unfold_locales (auto simp: mock_routing_def mock_insert_def mock_remove_def split: if_splits)

section \<open>Interleaving\<close>

text \<open>
  The state of a relay and of the insertion that holds its lock, if any. Removals and insertions
  take the lock in turn; parking does not take it and may happen at any moment; an insertion may
  be abandoned between two polls. \<open>adm\<close> restricts the batches that are inserted.
\<close>

type_synonym ('t, 'k) relay_state = "('t, 'k) relay \<times> ('t \<times> ip_addr list \<times> fut list) option"

inductive relay_step ::
  "'k routing \<Rightarrow> (ip_addr list \<Rightarrow> bool) \<Rightarrow> ('t, 'k) relay_state \<Rightarrow> ('t, 'k) relay_state \<Rightarrow> bool"
  for rt :: "'k routing" and adm :: "ip_addr list \<Rightarrow> bool" where
  insert_begins: "adm ips \<Longrightarrow> relay_step rt adm (self, None) (self, Some (v, ips, unpolled ips))"
| insert_polls: "insert_step rt v ips (self, futs) (Done (self', futs')) \<Longrightarrow>
    relay_step rt adm (self, Some (v, ips, futs)) (self', Some (v, ips, futs'))"
| insert_commits: "all_ok futs \<Longrightarrow> relay_step rt adm (self, Some (v, ips, futs)) (self, None)"
| insert_rolls_back: "has_failed futs \<Longrightarrow> cancelled rt (zip ips futs) (os self) k \<Longrightarrow>
    remove_locked rt ips (self\<lparr>os := k\<rparr>) = Done self' \<Longrightarrow>
    relay_step rt adm (self, Some (v, ips, futs)) (self', None)"
| insert_abandoned: "cancelled rt (zip ips futs) (os self) k \<Longrightarrow>
    relay_step rt adm (self, Some (v, ips, futs)) (self\<lparr>os := k\<rparr>, None)"
| removes: "remove_locked rt ips self = Done self' \<Longrightarrow> relay_step rt adm (self, None) (self', None)"
| parks: "relay_step rt adm (self, x) (park ips self, x)"

inductive relay_reach ::
  "'k routing \<Rightarrow> (ip_addr list \<Rightarrow> bool) \<Rightarrow> 'k \<Rightarrow> ('t, 'k) relay_state \<Rightarrow> bool"
  for rt :: "'k routing" and adm :: "ip_addr list \<Rightarrow> bool" and k :: 'k where
  reach_new: "relay_reach rt adm k (relay_new k, None)"
| reach_step: "relay_reach rt adm k c \<Longrightarrow> relay_step rt adm c d \<Longrightarrow> relay_reach rt adm k d"

lemma park_None [simp]: "peer_map (park ips self) ip = None \<longleftrightarrow> peer_map self ip = None"
  by (simp add: park_eq)

lemma relay_reach_apart:
  assumes "relay_reach rt distinct k c"
  shows "case snd c of None \<Rightarrow> True | Some (v, ips, futs) \<Rightarrow> distinct ips \<and> run_apart ips (fst c, futs)"
  using assms
proof induction
  case (reach_step c d)
  from reach_step(2) show ?case
  proof cases
    case (insert_polls v ips self futs self' futs')
    with reach_step(3) show ?thesis by (auto intro: run_apart_step)
  next
    case (parks self x ips)
    with reach_step(3) show ?thesis by (auto simp: run_apart_def split: option.splits)
  qed (auto simp: run_apart_def unpolled_def)
qed simp

context routing_table
begin

lemma relay_reach_inv: "relay_reach rt adm k c \<Longrightarrow> relay_inv routes (fst c)"
proof (induction rule: relay_reach.induct)
  case reach_new
  show ?case by (simp add: relay_new_def relay_inv_def guarded_def)
next
  case (reach_step c d)
  from reach_step(2) show ?case
  proof cases
    case (insert_polls v ips self futs self' futs')
    with reach_step(3) show ?thesis by (auto intro: relay_inv_step)
  next
    case (insert_rolls_back futs ips self k self' v)
    with reach_step(3) show ?thesis by (auto intro: relay_inv_remove relay_inv_cancelled)
  next
    case (insert_abandoned ips futs self k v)
    with reach_step(3) show ?thesis by (auto intro: relay_inv_cancelled)
  next
    case (removes ips self self')
    with reach_step(3) show ?thesis by (auto intro: relay_inv_remove)
  next
    case (parks self x ips)
    with reach_step(3) show ?thesis by (auto intro: relay_inv_park)
  qed (use reach_step(3) in auto)
qed

lemma relay_run_inv:
  assumes "insert_run rt val ips (self, futs0) (Done (self', futs))" and "relay_inv routes self"
  shows "relay_inv routes self'"
proof -
  have "(\<lambda>c. relay_inv routes (fst c)) (self', futs)"
    by (rule insert_run_invariant [OF assms(1) refl]) (auto simp: assms(2) intro: relay_inv_step)
  then show ?thesis by simp
qed

lemma run_routes:
  assumes "insert_run rt val ips (self, futs0) (Done (self', futs))"
  shows "routes (os self) \<subseteq> routes (os self') \<and> routes (os self') \<subseteq> routes (os self) \<union> set ips"
proof -
  have step: "routes (os t) \<subseteq> routes (os t') \<and> routes (os t') \<subseteq> routes (os t) \<union> set ips"
    if "insert_step rt val ips (t, f) (Done (t', f'))" for t f t' f'
    using that
  proof cases
    case (poll_started i g)
    from poll_started(5) show ?thesis by (cases rule: poll_start_cases) auto
  next
    case (poll_resumed i g)
    have "ips ! i \<in> set ips" using poll_resumed by simp
    from poll_resumed(5) this show ?thesis
      by (cases rule: poll_resume_cases) (auto dest: scoped_new_bounds)
  qed
  have "(\<lambda>c. routes (os self) \<subseteq> routes (os (fst c)) \<and> routes (os (fst c)) \<subseteq> routes (os self) \<union> set ips)
      (self', futs)"
    by (rule insert_run_invariant [OF assms refl]) (auto dest!: step)
  then show ?thesis by simp
qed

end

section \<open>Outcomes of an insertion\<close>

lemma relay_insert_Ok:
  assumes "relay_insert rt st ips val self (Done (Inr (), self'))"
  obtains futs where "insert_run rt val ips (self, unpolled ips) (Done (self', futs))" "all_ok futs"
  using assms by (cases rule: relay_insertE) (auto simp: Done_bind_outcome_iff)

lemma relay_insert_Err:
  assumes "relay_insert rt st ips val self (Done (Inl s, self'))"
  obtains t futs e k where "insert_run rt val ips (self, unpolled ips) (Done (t, futs))"
    "Finished (Inl e) \<in> set futs" "s = status_of_io st e" "cancelled rt (zip ips futs) (os t) k"
    "remove_locked rt ips (t\<lparr>os := k\<rparr>) = Done self'"
  using assms by (cases rule: relay_insertE) (auto simp: Done_bind_outcome_iff)

lemma relay_insert_Ok_get:
  assumes "relay_insert rt st ips val self (Done (Inr (), self'))"
  shows "relay_get self' ip = (if ip \<in> set ips then Some (Connected val) else relay_get self ip)"
proof -
  obtain futs where r: "insert_run rt val ips (self, unpolled ips) (Done (self', futs))" and a: "all_ok futs"
    using assms by (rule relay_insert_Ok)
  have f: "run_frame val ips self (self', futs)"
    by (rule run_frame_run [OF r])
  then have "futs ! i = Finished (Inr ())" if "i < length ips" for i
    using a that by (simp add: all_ok_def list_all_length run_frame_def)
  with f show ?thesis
    by (auto simp: run_frame_def in_set_conv_nth) (simp add: relay_get_def)
qed

lemma relay_insert_Err_get:
  assumes "relay_insert rt st ips val self (Done (Inl s, self'))" and "guarded self"
  shows "relay_get self' ip = (if ip \<in> set ips then None else relay_get self ip)"
  using assms(1)
proof (rule relay_insert_Err)
  fix t futs e k
  assume r: "insert_run rt val ips (self, unpolled ips) (Done (t, futs))"
    and m: "remove_locked rt ips (t\<lparr>os := k\<rparr>) = Done self'"
  have "guarded (t\<lparr>os := k\<rparr>)"
    using guarded_run [OF r assms(2)] by (simp add: guarded_def)
  then have "self' = t\<lparr>os := removal rt ips k, peer_map := peer_map t |` (- set ips)\<rparr>"
    using m by (simp add: remove_locked_eq)
  moreover have "peer_map t ip = peer_map self ip" if "ip \<notin> set ips"
    using run_frame_run [OF r] that by (simp add: run_frame_def)
  ultimately show ?thesis
    by (simp add: relay_get_def)
qed

lemma remove_stale_eq:
  assumes "guarded self"
  shows "\<exists>k. remove_stale rt current previous self =
    Done (self\<lparr>os := k, peer_map := peer_map self |` (- (set previous - set current))\<rparr>)"
proof (cases "stale current previous = []")
  case True
  then have "set previous - set current = {}"
    by (auto simp: stale_def filter_empty_conv)
  then have "peer_map self |` (- (set previous - set current)) = peer_map self"
    by (auto simp: restrict_map_def fun_eq_iff)
  with True show ?thesis
    by (auto simp: remove_stale_def intro!: exI [of _ "os self"])
next
  case False
  moreover have "set (stale current previous) = set previous - set current"
    by (auto simp: stale_def)
  ultimately show ?thesis
    using remove_locked_eq [OF assms, of rt "stale current previous"]
    by (auto simp: remove_stale_def relay_remove_def)
qed

section \<open>The sequential schedule is a run\<close>

lemma insert_run_trans:
  assumes "insert_run rt val ips d r" and "insert_run rt val ips c (Done d)"
  shows "insert_run rt val ips c r"
  using assms by (induction rule: insert_run.induct) (auto intro: insert_run.intros)

lemma cancelled_refl: "cancelled rt fs k k"
proof (induction fs)
  case Nil
  show ?case by (rule cancel_none)
next
  case (Cons f fs)
  then show ?case by (cases f) (auto intro: cancel_skip)
qed

abbreviation done_futs :: "ip_addr list \<Rightarrow> fut list" where
  "done_futs ips \<equiv> replicate (length ips) (Finished (Inr ()))"

lemma not_failed_front [simp]:
  "has_failed (done_futs pre @ f # unpolled ips) \<longleftrightarrow> (\<exists>e. f = Finished (Inl e))"
  by (auto simp: has_failed_iff unpolled_def)

lemma front_nth [simp]:
  "(done_futs pre @ f # fs) ! length pre = f"
  "(done_futs pre @ f # fs)[length pre := g] = done_futs pre @ g # fs"
  using nth_append_length [of "done_futs pre" f fs] list_update_length [of "done_futs pre" f fs g]
  by simp_all

lemma unpolled_Cons [simp]: "unpolled (ip # ips) = Unpolled # unpolled ips"
  by (simp add: unpolled_def)

lemma front_start:
  assumes "poll_start val ip self = (f, self')"
  shows "insert_run rt val (pre @ ip # ips) (self, done_futs pre @ unpolled (ip # ips))
    (Done (self', done_futs pre @ f # unpolled ips))"
proof -
  have "insert_step rt val (pre @ ip # ips) (self, done_futs pre @ unpolled (ip # ips))
      (Done (self', (done_futs pre @ unpolled (ip # ips))[length pre := f]))"
    by (rule poll_started) (use assms in simp_all)
  then show ?thesis by (auto intro: insert_run.intros)
qed

lemma front_resume:
  assumes "poll_resume rt val ip self = r"
  shows "insert_run rt val (pre @ ip # ips) (self, done_futs pre @ Inserting # unpolled ips)
    (bind_outcome r (\<lambda>(f, self'). Done (self', done_futs pre @ f # unpolled ips)))"
proof (cases r)
  case (Done x)
  obtain f self' where x: "x = (f, self')" by (cases x)
  have "insert_step rt val (pre @ ip # ips) (self, done_futs pre @ Inserting # unpolled ips)
      (Done (self', (done_futs pre @ Inserting # unpolled ips)[length pre := f]))"
    by (rule poll_resumed) (use assms Done x in simp_all)
  then show ?thesis using Done x by (auto intro: insert_run.intros)
next
  case (Panic m)
  have "insert_step rt val (pre @ ip # ips) (self, done_futs pre @ Inserting # unpolled ips) (Panic m)"
    by (rule poll_panicked [where i = "length pre"]) (use assms Panic in simp_all)
  then show ?thesis using Panic by (auto intro: insert_run.intros)
qed

definition seq_result ::
  "'k routing \<Rightarrow> 't \<Rightarrow> ip_addr list \<Rightarrow> ('t, 'k) insertion \<Rightarrow>
   ((io_error + unit) \<times> ('t, 'k) relay) outcome \<Rightarrow> bool" where
  "seq_result rt val ips c r =
     (case r of
        Done (Inr _, self') \<Rightarrow> insert_run rt val ips c (Done (self', done_futs ips))
      | Done (Inl e, self') \<Rightarrow>
          (\<exists>futs. insert_run rt val ips c (Done (self', futs)) \<and> Finished (Inl e) \<in> set futs)
      | Panic m \<Rightarrow> insert_run rt val ips c (Panic m))"

lemma seq_result_trans:
  assumes "insert_run rt val ips c (Done d)" and "seq_result rt val ips d r"
  shows "seq_result rt val ips c r"
  using assms(2) insert_run_trans [OF _ assms(1)]
  by (auto simp: seq_result_def split: outcome.splits prod.splits sum.splits)

lemma insert_seq_run:
  "seq_result rt val (pre @ ips) (self, done_futs pre @ unpolled ips) (insert_seq rt val ips self)"
proof (induction ips arbitrary: pre self)
  case Nil
  show ?case by (simp add: seq_result_def unpolled_def run_refl)
next
  case (Cons ip ips)
  have rest: "seq_result rt val (pre @ ip # ips) (t, done_futs pre @ Finished (Inr ()) # unpolled ips)
      (insert_seq rt val ips t)" for t
    using Cons.IH [of "pre @ [ip]" t] by (simp add: replicate_app_Cons_same)
  obtain f self' where s: "poll_start val ip self = (f, self')" by fastforce
  then show ?case
  proof (cases rule: poll_start_cases)
    case (rearm e)
    then show ?thesis
      using seq_result_trans [OF front_start [OF s, unfolded rearm(2)] rest] s by simp
  next
    case wait
    note run = front_resume [of rt val ip self "poll_resume rt val ip self" pre ips, OF HOL.refl]
    note first = front_start [OF s, unfolded wait(2,3), of rt pre ips]
    have *: "insert_seq rt val (ip # ips) self = bind_outcome (poll_resume rt val ip self)
        (\<lambda>(f, self''). case f of Finished (Inl e) \<Rightarrow> Done (Inl e, self'') | _ \<Rightarrow> insert_seq rt val ips self'')"
      using s wait by simp
    show ?thesis
    proof (cases "poll_resume rt val ip self")
      case (Panic m)
      then show ?thesis
        using insert_run_trans [OF run first] * by (simp add: seq_result_def)
    next
      case (Done x)
      then obtain g t where g: "poll_resume rt val ip self = Done (g, t)" by (cases x) simp
      then have run': "insert_run rt val (pre @ ip # ips) (self, done_futs pre @ unpolled (ip # ips))
          (Done (t, done_futs pre @ g # unpolled ips))"
        using insert_run_trans [OF run first] by simp
      from g show ?thesis
      proof (cases rule: poll_resume_cases)
        case (failed e k)
        then show ?thesis using run' * g by (auto simp: seq_result_def)
      next
        case (added scoped k)
        then show ?thesis
          using seq_result_trans [OF run' [unfolded added(2)] rest] * g by simp
      qed
    qed
  qed
qed

lemma insert_seq_allowed: "relay_insert rt st ips val self (relay_insert_seq rt st ips val self)"
proof -
  have r: "seq_result rt val ips (self, unpolled ips) (insert_seq rt val ips self)"
    using insert_seq_run [of rt val "[]" ips self] by simp
  show ?thesis
  proof (cases "insert_seq rt val ips self")
    case (Panic m)
    with r show ?thesis by (auto simp: seq_result_def relay_insert_seq_def intro: insert_panicked)
  next
    case (Done x)
    obtain q self' where x: "x = (q, self')" by (cases x)
    show ?thesis
    proof (cases q)
      case (Inr u)
      with r Done x have "insert_run rt val ips (self, unpolled ips) (Done (self', done_futs ips))"
        by (simp add: seq_result_def)
      moreover have "all_ok (done_futs ips)"
        by (simp add: all_ok_def list_all_iff)
      ultimately show ?thesis
        using Done x Inr by (auto simp: relay_insert_seq_def intro: insert_all_ok)
    next
      case (Inl e)
      with r Done x obtain futs where
          "insert_run rt val ips (self, unpolled ips) (Done (self', futs))" "Finished (Inl e) \<in> set futs"
        by (auto simp: seq_result_def)
      from insert_rolled_back [OF this cancelled_refl, of st] show ?thesis
        using Done x Inl by (simp add: relay_insert_seq_def)
    qed
  qed
qed

section \<open>Termination\<close>

primrec fut_weight :: "fut \<Rightarrow> nat" where
  "fut_weight Unpolled = 2"
| "fut_weight Inserting = 1"
| "fut_weight (Finished r) = 0"

definition futs_weight :: "fut list \<Rightarrow> nat" where
  "futs_weight futs = sum_list (map fut_weight futs)"

lemma futs_weight_update:
  assumes "i < length futs" and "fut_weight f < fut_weight (futs ! i)"
  shows "futs_weight (futs[i := f]) < futs_weight futs"
proof -
  have "fut_weight (futs ! i) \<le> futs_weight futs"
    using assms(1) elem_le_sum_list [of i "map fut_weight futs"] by (simp add: futs_weight_def)
  with assms show ?thesis
    by (simp add: futs_weight_def map_update sum_list_update)
qed

lemma insert_step_weight:
  assumes "insert_step rt val ips (self, futs) (Done (self', futs'))" and "length futs = length ips"
  shows "futs_weight futs' < futs_weight futs \<and> length futs' = length ips"
  using assms(1)
proof cases
  case (poll_started i f)
  from poll_started(5) have "fut_weight f < 2"
    by (cases rule: poll_start_cases) simp_all
  with poll_started assms(2) show ?thesis by (auto intro: futs_weight_update)
next
  case (poll_resumed i f)
  from poll_resumed(5) have "fut_weight f < 1"
    by (cases rule: poll_resume_cases) simp_all
  with poll_resumed assms(2) show ?thesis by (auto intro: futs_weight_update)
qed

lemma insert_steps_weight:
  assumes "((\<lambda>c d. insert_step rt val ips c (Done d)) ^^ n) (self, futs) (self', futs')"
    and "length futs = length ips"
  shows "n + futs_weight futs' \<le> futs_weight futs \<and> length futs' = length ips"
  using assms
proof (induction n arbitrary: self' futs')
  case (Suc n)
  then obtain t f where "((\<lambda>c d. insert_step rt val ips c (Done d)) ^^ n) (self, futs) (t, f)"
      and "insert_step rt val ips (t, f) (Done (self', futs'))"
    by (metis relpowp_Suc_E surj_pair)
  with Suc.IH [of t f] Suc.prems(2) insert_step_weight [of rt val ips t f self' futs'] show ?case
    by auto
qed simp

lemma insert_step_progress:
  assumes "length futs = length ips" and "\<not> has_failed futs" and "\<not> all_ok futs"
  shows "\<exists>r. insert_step rt val ips (self, futs) r"
proof -
  obtain i where i: "i < length ips" and f: "futs ! i \<noteq> Finished (Inr ())"
    using assms(1,3) by (auto simp: all_ok_def list_all_length)
  have "futs ! i \<noteq> Finished (Inl e)" for e
    using assms(1,2) i by (metis has_failed_iff nth_mem)
  then consider "futs ! i = Unpolled" | "futs ! i = Inserting"
    using f by (cases "futs ! i") (auto split: sum.splits, metis old.sum.exhaust old.unit.exhaust)
  then show ?thesis
  proof cases
    case 1
    then show ?thesis
      using poll_started [OF assms(2) i 1, of val self] by (metis surj_pair)
  next
    case 2
    show ?thesis
    proof (cases "poll_resume rt val (ips ! i) self")
      case (Done x)
      then show ?thesis
        using poll_resumed [OF assms(2) i 2, of rt val self "fst x" "snd x"] by auto
    next
      case (Panic m)
      then show ?thesis
        using poll_panicked [OF assms(2) i 2, of rt val self m] by blast
    qed
  qed
qed

section \<open>Re-arming\<close>

definition run_rearms :: "ip_addr list \<Rightarrow> 'k \<Rightarrow> ('t, 'k) insertion \<Rightarrow> bool" where
  "run_rearms ips k c =
     (os (fst c) = k \<and> length (snd c) = length ips \<and>
      (\<forall>i < length ips. peer_map (fst c) (ips ! i) \<noteq> None) \<and>
      (\<forall>i < length ips. snd c ! i = Unpolled \<or> snd c ! i = Finished (Inr ())))"

lemma run_rearms_step:
  assumes "run_rearms ips k (self, futs)" and "insert_step rt val ips (self, futs) r"
  shows "\<exists>self' futs'. r = Done (self', futs') \<and> run_rearms ips k (self', futs')"
  using assms(2)
proof cases
  case (poll_started i f self')
  from poll_started(5) show ?thesis
  proof (cases rule: poll_start_cases)
    case (rearm e)
    then show ?thesis
      using assms(1) poll_started by (auto simp: run_rearms_def nth_list_update)
  next
    case wait
    moreover have "peer_map self (ips ! i) \<noteq> None"
      using assms(1) poll_started(3) unfolding run_rearms_def fst_conv by blast
    ultimately show ?thesis by simp
  qed
next
  case (poll_resumed i f self')
  then show ?thesis using assms(1) by (auto simp: run_rearms_def)
next
  case (poll_panicked i m)
  then show ?thesis using assms(1) by (auto simp: run_rearms_def)
qed

lemma run_rearms_run:
  assumes "insert_run rt val ips c r" and "run_rearms ips k c"
  shows "\<exists>self' futs'. r = Done (self', futs') \<and> run_rearms ips k (self', futs')"
  using assms
proof induction
  case (run_refl c)
  then show ?case by (cases c) simp
next
  case (run_step c d r)
  then obtain self' futs' where "d = (self', futs')" and "run_rearms ips k (self', futs')"
    by blast
  with run_rearms_step [of ips k self' futs' rt val r] run_step(2) show ?case by simp
qed

section \<open>Reaching states by whole operations\<close>

lemma reach_run:
  assumes "insert_run rt v ips c r" and "r = Done (self', futs')" and "c = (self, futs)"
    and "relay_reach rt adm k (self, Some (v, ips, futs))"
  shows "relay_reach rt adm k (self', Some (v, ips, futs'))"
  using assms
proof (induction arbitrary: self' futs')
  case (run_step c d r)
  then show ?case by (cases d) (auto intro: reach_step insert_polls)
qed simp

lemma reach_insert_Ok:
  assumes "relay_reach rt adm k (self, None)" and "adm ips"
    and "relay_insert rt st ips v self (Done (Inr (), self'))"
  shows "relay_reach rt adm k (self', None)"
  using assms(3)
proof (rule relay_insert_Ok)
  fix futs
  assume "insert_run rt v ips (self, unpolled ips) (Done (self', futs))" and "all_ok futs"
  moreover have "relay_reach rt adm k (self, Some (v, ips, unpolled ips))"
    using reach_step [OF assms(1) insert_begins [of adm, OF assms(2)]] .
  ultimately show ?thesis
    by (meson reach_run reach_step insert_commits HOL.refl)
qed

lemma remove_locked_no_panic: "\<not> panics (remove_locked rt ips self)"
proof (induction ips arbitrary: self)
  case (Cons ip ips)
  have "\<exists>t. remove_one rt ip self = Done t"
    by (auto simp: remove_one_def drop_async_Done split: option.splits)
  then show ?case using Cons.IH by auto
qed simp

section \<open>The abstract table\<close>

text \<open>
  What the relay promises, with no routes and no guards: a partial function from addresses to what
  a lookup answers.
\<close>

type_synonym 't table = "ip_addr \<rightharpoonup> 't dispatch"

definition table_insert :: "ip_addr list \<Rightarrow> 't \<Rightarrow> thin_status + unit \<Rightarrow> 't table \<Rightarrow> 't table" where
  "table_insert ips v res T =
     (\<lambda>ip. if ip \<in> set ips then (case res of Inr _ \<Rightarrow> Some (Connected v) | Inl _ \<Rightarrow> None) else T ip)"

definition table_park :: "ip_addr list \<Rightarrow> 't table \<Rightarrow> 't table" where
  "table_park ips T = (\<lambda>ip. if ip \<in> set ips then map_option (\<lambda>_. Parked) (T ip) else T ip)"

definition table_remove :: "ip_addr set \<Rightarrow> 't table \<Rightarrow> 't table" where
  "table_remove ips T = T |` (- ips)"

lemma reconcile_Done:
  assumes "reconcile rt st current previous val self (Done r)" and "guarded self"
  obtains k t where "guarded t" "t = self\<lparr>os := k, peer_map := peer_map self |` (- (set previous - set current))\<rparr>"
    "relay_insert rt st current val t (Done r)"
proof -
  obtain k where k: "remove_stale rt current previous self =
      Done (self\<lparr>os := k, peer_map := peer_map self |` (- (set previous - set current))\<rparr>)"
    using remove_stale_eq [OF assms(2)] by blast
  have g: "guarded (self\<lparr>os := k, peer_map := peer_map self |` (- (set previous - set current))\<rparr>)"
    using assms(2) by (auto simp: guarded_def restrict_map_def split: if_splits)
  from assms(1) k
  have "relay_insert rt st current val
      (self\<lparr>os := k, peer_map := peer_map self |` (- (set previous - set current))\<rparr>) (Done r)"
    by (cases rule: reconcileE) (auto simp del: Diff_Compl Compl_Diff_eq)
  with g show ?thesis by (rule that [OF _ HOL.refl])
qed

lemma relay_insert_table:
  assumes "relay_insert rt st ips val self (Done (res, self'))" and "guarded self"
  shows "relay_get self' = table_insert ips val res (relay_get self)"
proof (cases res)
  case (Inl s)
  then show ?thesis
    using relay_insert_Err_get [OF assms(1) [unfolded Inl] assms(2)]
    by (auto simp: fun_eq_iff table_insert_def)
next
  case (Inr u)
  then show ?thesis
    using relay_insert_Ok_get [of rt st ips val self self'] assms(1) by (auto simp: fun_eq_iff table_insert_def)
qed

lemma reconcile_table:
  assumes "reconcile rt st current previous val self (Done (res, self'))" and "guarded self"
  shows "relay_get self' =
    table_insert current val res (table_remove (set previous - set current) (relay_get self))"
proof (rule reconcile_Done [OF assms])
  fix k t
  assume "guarded t"
    and t: "t = self\<lparr>os := k, peer_map := peer_map self |` (- (set previous - set current))\<rparr>"
    and i: "relay_insert rt st current val t (Done (res, self'))"
  have "relay_get t = table_remove (set previous - set current) (relay_get self)"
    unfolding t by (auto simp: fun_eq_iff table_remove_def relay_get_def restrict_map_def)
  with relay_insert_table [OF i \<open>guarded t\<close>] show ?thesis by simp
qed

lemma relay_remove_table:
  assumes "relay_remove rt ips self = Done self'" and "guarded self"
  shows "relay_get self' = table_remove (set ips) (relay_get self)"
  using assms(1) remove_locked_eq [OF assms(2), of rt ips]
  by (auto simp: relay_remove_def fun_eq_iff table_remove_def relay_get_def restrict_map_def)

lemma park_table: "relay_get (park ips self) = table_park ips (relay_get self)"
  by (auto simp: fun_eq_iff relay_get_def park_eq table_park_def option.map_comp o_def)

text \<open>Re-arming needs no route: when every address of the batch already has an entry, connected or
  parked, every outcome of the insertion is a success, and the operating system is not asked for
  anything.\<close>

lemma rearm_keeps_routes:
  assumes "\<forall>ip \<in> set ips. relay_get self ip \<noteq> None" and "relay_insert rt st ips val self r"
  shows "\<exists>self'. r = Done (Inr (), self') \<and> os self' = os self \<and>
    (\<forall>ip \<in> set ips. relay_get self' ip = Some (Connected val))"
proof -
  have "\<forall>ip \<in> set ips. peer_map self ip \<noteq> None"
    using assms(1) by (auto simp: relay_get_def)
  then have "run_rearms ips (os self) (self, unpolled ips)"
    by (simp add: run_rearms_def unpolled_def)
  note rearms = run_rearms_run [OF _ this]
  from assms(2) show ?thesis
  proof cases
    case (insert_all_ok self' futs)
    then show ?thesis
      using rearms [OF insert_all_ok(2)] relay_insert_Ok_get [of rt st ips val self self'] assms(2)
      by (auto simp: run_rearms_def)
  next
    case (insert_rolled_back self' futs e k)
    then show ?thesis
      using rearms [OF insert_rolled_back(2)] by (auto simp: run_rearms_def in_set_conv_nth)
  next
    case (insert_panicked m)
    then show ?thesis using rearms [OF insert_panicked(2)] by simp
  qed
qed

section \<open>Operations as steps\<close>

lemma reach_insert_Err:
  assumes "relay_reach rt adm k (self, None)" and "adm ips"
    and "relay_insert rt st ips v self (Done (Inl s, self'))"
  shows "relay_reach rt adm k (self', None)"
  using assms(3)
proof (rule relay_insert_Err)
  fix t futs e k'
  assume r: "insert_run rt v ips (self, unpolled ips) (Done (t, futs))" and e: "Finished (Inl e) \<in> set futs"
    and c: "cancelled rt (zip ips futs) (os t) k'" and m: "remove_locked rt ips (t\<lparr>os := k'\<rparr>) = Done self'"
  have "relay_reach rt adm k (self, Some (v, ips, unpolled ips))"
    using reach_step [OF assms(1) insert_begins [of adm, OF assms(2)]] .
  then have t: "relay_reach rt adm k (t, Some (v, ips, futs))"
    by (rule reach_run [OF r HOL.refl HOL.refl])
  have "has_failed futs" using e by (auto simp: has_failed_iff)
  from reach_step [OF t insert_rolls_back [OF this c m]] show ?thesis .
qed

lemma reach_remove:
  "relay_reach rt adm k (self, None) \<Longrightarrow> relay_remove rt ips self = Done self' \<Longrightarrow>
   relay_reach rt adm k (self', None)"
  by (auto simp: relay_remove_def intro: reach_step removes)

lemma reach_park: "relay_reach rt adm k (self, x) \<Longrightarrow> relay_reach rt adm k (park ips self, x)"
  by (rule reach_step [OF _ parks])

lemma reach_reconcile:
  assumes "relay_reach rt adm k (self, None)" and "adm current"
    and "reconcile rt st current previous v self (Done (res, self'))"
  shows "relay_reach rt adm k (self', None)"
  using assms(3)
proof cases
  case (reconcile_insert t)
  then have "relay_reach rt adm k (t, None)"
    using assms(1) by (auto simp: remove_stale_def intro: reach_remove split: if_splits)
  with reconcile_insert show ?thesis
    using reach_insert_Ok [of rt adm k t current st v self'] reach_insert_Err [of rt adm k t current st v _ self'] assms(2)
    by (cases res) auto
qed

section \<open>Concrete runs\<close>

text \<open>The relay of the tests after one peer has been inserted at two addresses.\<close>

definition two_addresses :: "ip_addr list" where
  "two_addresses = [V4 0x0A000001, V4 0x0A000002]"

definition after_insert :: "(string, mock_route_handle) relay" where
  "after_insert =
     (case relay_insert_seq mock_routing grpc two_addresses ''peer'' (relay_new mock_new) of
        Done (_, self) \<Rightarrow> self | Panic _ \<Rightarrow> relay_new mock_new)"

lemma after_insert_run:
  "relay_insert_seq mock_routing grpc two_addresses ''peer'' (relay_new mock_new) = Done (Inr (), after_insert)"
  by (simp add: after_insert_def relay_insert_seq_def two_addresses_def relay_new_def poll_start_def
      poll_resume_def scoped_new_def mock_routing_def mock_insert_def mock_new_def)

lemma after_insert_allowed:
  "relay_insert mock_routing grpc two_addresses ''peer'' (relay_new mock_new) (Done (Inr (), after_insert))"
  using insert_seq_allowed [of mock_routing grpc two_addresses "''peer''" "relay_new mock_new"]
  unfolding after_insert_run .

lemma after_insert_reach: "relay_reach mock_routing distinct mock_new (after_insert, None)"
  by (rule reach_insert_Ok [OF reach_new _ after_insert_allowed]) (simp add: two_addresses_def)

lemma guarded_new [simp]: "guarded (relay_new k)"
  by (simp add: guarded_def relay_new_def)

section \<open>Properties\<close>

text \<open>(C4) The invariant of the relay: in every state that any interleaving of insertions, removals
  and parking reaches, an address that a lookup finds has its route installed, and every entry
  guards the route of its own address. It holds between any two polls, whatever the operating
  system answers, and also when an insertion fails or is abandoned.\<close>

theorem relay_invariant:
  assumes "routing_table rt routes" and "relay_reach rt adm k (self, insertion)"
  shows "{ip. relay_get self ip \<noteq> None} \<subseteq> routes (os self) \<and> guarded self"
  using routing_table.relay_reach_inv [OF assms] by (auto simp: relay_inv_def relay_get_def)

theorem relay_invariant_witness:
  "{ip. relay_get after_insert ip \<noteq> None} \<subseteq> active_routes (os after_insert) \<and> guarded after_insert \<and>
   relay_get after_insert (V4 0x0A000001) = Some (Connected ''peer'')"
  using relay_invariant [OF mock.routing_table_axioms after_insert_reach]
    relay_insert_Ok_get [OF after_insert_allowed]
  by (simp add: two_addresses_def)

text \<open>(C18) The guards never fire: if no batch lists an address twice, no poll of an insertion panics,
  in any interleaving with parking; removals never panic.\<close>

theorem relay_no_panic:
  assumes "relay_reach rt distinct k (self, Some (v, ips, futs))"
    and "insert_step rt v ips (self, futs) r"
  shows "\<not> panics r \<and> \<not> panics (relay_remove rt ips' self)"
  using relay_reach_apart [OF assms(1)] run_apart_no_panic [OF _ assms(2)] remove_locked_no_panic
  by (auto simp: relay_remove_def)

theorem relay_no_panic_witness:
  "\<exists>r. insert_step mock_routing ''peer'' [V4 1] (relay_new mock_new, [Unpolled]) r \<and> \<not> panics r"
proof -
  have reach: "relay_reach mock_routing distinct mock_new (relay_new mock_new, Some (''peer'', [V4 1], unpolled [V4 1]))"
    by (rule reach_step [OF reach_new insert_begins]) simp
  obtain r where
    r: "insert_step mock_routing ''peer'' [V4 1] (relay_new mock_new, unpolled [V4 1]) r"
    using insert_step_progress [of "unpolled [V4 1]" "[V4 1]" mock_routing "''peer''" "relay_new mock_new"]
    by (auto simp: unpolled_def has_failed_def all_ok_def)
  then show ?thesis
    using relay_no_panic [OF reach r] by (auto simp: unpolled_def)
qed

text \<open>(C7) Refinement: forgetting routes and guards, every operation of the relay is the operation of
  an abstract table. A successful reconciliation connects exactly the current addresses and drops
  the previous ones that are no longer current, a failed one leaves neither; parking and removal
  act on the listed addresses only. It holds for every schedule of the futures.\<close>

theorem relay_refines_table:
  assumes "guarded self"
  shows "(relay_insert rt st ips val self (Done (res, self')) \<longrightarrow>
      relay_get self' = table_insert ips val res (relay_get self)) \<and>
    (reconcile rt st current previous val self (Done (res, self')) \<longrightarrow>
      relay_get self' =
        table_insert current val res (table_remove (set previous - set current) (relay_get self))) \<and>
    (relay_remove rt ips self = Done self' \<longrightarrow> relay_get self' = table_remove (set ips) (relay_get self)) \<and>
    relay_get (park ips self) = table_park ips (relay_get self)"
  using relay_insert_table [OF _ assms] reconcile_table [OF _ assms] relay_remove_table [OF _ assms]
    park_table by blast

theorem relay_refines_table_witness:
  "relay_get after_insert = table_insert two_addresses ''peer'' (Inr ()) Map.empty"
proof -
  have "relay_get (relay_new mock_new :: (string, mock_route_handle) relay) = Map.empty"
    by (simp add: relay_get_def relay_new_def fun_eq_iff)
  then show ?thesis
    using relay_refines_table [OF guarded_new, THEN conjunct1, THEN mp, OF after_insert_allowed] by simp
qed







end
