(* ===== verification/Buffer_Pool.thy ===== *)
theory Buffer_Pool
  imports Crates
begin

text \<open>
  The pool of packet buffers (\<^verbatim>\<open>src/buffer_pool.rs\<close>): a bounded channel of buffers of one size,
  the buffers that are checked out of it and come back when they are dropped, and the reads and
  writes of frames. A channel of \<^verbatim>\<open>tokio\<close> is its queue, its bound and whether its receiver is
  gone; the TUN device is an argument.
\<close>

section \<open>State\<close>

record buffer_pool =
  pool :: "bytes list"
  max_capacity :: nat
  receiver_closed :: bool
  capacity_gauge :: u32
  active_gauge :: int

record pooled_buffer =
  buffer :: bytes
  filled_len :: nat

datatype pooled_slice = PooledSlice (owned: pooled_buffer)

text \<open>\<^verbatim>\<open>PooledBuffer\<close> and \<^verbatim>\<open>PooledSlice\<close> as slices.\<close>

definition buffer_deref :: "pooled_buffer \<Rightarrow> bytes" where
  "buffer_deref self = take (filled_len self) (buffer self)"

definition slice_deref :: "pooled_slice \<Rightarrow> bytes" where
  "slice_deref self = buffer_deref (owned self)"

definition to_buffer :: "pooled_slice \<Rightarrow> pooled_buffer" where
  "to_buffer self = owned self"

definition slice_from :: "pooled_buffer \<Rightarrow> pooled_slice" where
  "slice_from b = PooledSlice b"

section \<open>The channel\<close>

datatype try_send_error = Full bytes | Closed bytes

definition channel_capacity :: "buffer_pool \<Rightarrow> nat" where
  "channel_capacity p = max_capacity p - length (pool p)"

definition try_send :: "bytes \<Rightarrow> buffer_pool \<Rightarrow> try_send_error + buffer_pool" where
  "try_send b p =
     (if receiver_closed p then Inl (Closed b)
      else if channel_capacity p = 0 then Inl (Full b)
      else Inr (p\<lparr>pool := pool p @ [b]\<rparr>))"

definition report_available :: "buffer_pool \<Rightarrow> buffer_pool" where
  "report_available p = p\<lparr>capacity_gauge := of_nat (max_capacity p - channel_capacity p)\<rparr>"

section \<open>The pool\<close>

fun fill_pool :: "nat \<Rightarrow> nat \<Rightarrow> buffer_pool \<Rightarrow> buffer_pool outcome" where
  "fill_pool 0 buf_size p = Done p"
| "fill_pool (Suc n) buf_size p =
     (case try_send (replicate buf_size 0) p of
        Inr p' \<Rightarrow> fill_pool n buf_size p'
      | Inl _ \<Rightarrow> Panic ''when filling up BufferPool'')"

definition pool_new :: "nat \<Rightarrow> nat \<Rightarrow> buffer_pool outcome" where
  "pool_new count buf_size =
     (if count = 0 then Panic ''mpsc bounded channel requires buffer > 0''
      else fill_pool count buf_size
             \<lparr>pool = [], max_capacity = count, receiver_closed = False,
              capacity_gauge = of_nat count, active_gauge = 0\<rparr>)"

text \<open>\<open>None\<close> while no buffer is available.\<close>

definition pop :: "buffer_pool \<Rightarrow> (pooled_buffer \<times> buffer_pool) option" where
  "pop self =
     (case pool self of
        [] \<Rightarrow> None
      | b # bs \<Rightarrow>
          Some (\<lparr>buffer = b, filled_len = 0\<rparr>,
                report_available (self\<lparr>pool := bs, active_gauge := active_gauge self + 1\<rparr>)))"

text \<open>
  The destructor of a buffer. The weak reference to the pool can be upgraded as long as the pool
  exists; without a pool the second argument is \<open>None\<close>.
\<close>

definition pooled_drop :: "pooled_buffer \<Rightarrow> buffer_pool option \<Rightarrow> buffer_pool option outcome" where
  "pooled_drop self reclaim =
     (case reclaim of
        None \<Rightarrow> Done None
      | Some sender \<Rightarrow>
          (let sender = report_available (sender\<lparr>active_gauge := active_gauge sender - 1\<rparr>)
           in case try_send (buffer self) sender of
                Inr sender' \<Rightarrow> Done (Some sender')
              | Inl (Closed _) \<Rightarrow> Done (Some sender)
              | Inl (Full _) \<Rightarrow> Panic ''can't happen: `pool` is full''))"

section \<open>Writing into a buffer\<close>

definition remaining_mut :: "pooled_buffer \<Rightarrow> nat" where
  "remaining_mut self = length (buffer self) - filled_len self"

definition chunk_mut :: "pooled_buffer \<Rightarrow> bytes" where
  "chunk_mut self = drop (filled_len self) (buffer self)"

definition advance_mut :: "nat \<Rightarrow> pooled_buffer \<Rightarrow> pooled_buffer outcome" where
  "advance_mut cnt self =
     (if cnt > remaining_mut self
      then Panic (''advance_mut called at offset '' @ show_nat cnt @ '' with value '' @
                  show_nat (filled_len self) @ '' beyond the buffer size '' @
                  show_nat (length (buffer self)))
      else Done (self\<lparr>filled_len := filled_len self + cnt\<rparr>))"

text \<open>Writing over the unfilled part of a buffer.\<close>

definition set_chunk :: "bytes \<Rightarrow> pooled_buffer \<Rightarrow> pooled_buffer" where
  "set_chunk chunk self = self\<lparr>buffer := take (filled_len self) (buffer self) @ chunk\<rparr>"

section \<open>Frames\<close>

text \<open>
  The scoped view on the unfilled part of a buffer: the slice and how much of it is filled. When
  the view is dropped, what it filled is added to the buffer it was taken from.
\<close>

record updating_read_buf =
  rb_data :: bytes
  rb_filled :: nat

definition read_buf :: "pooled_buffer \<Rightarrow> updating_read_buf" where
  "read_buf self = \<lparr>rb_data = chunk_mut self, rb_filled = 0\<rparr>"

definition rb_advance :: "nat \<Rightarrow> updating_read_buf \<Rightarrow> updating_read_buf outcome" where
  "rb_advance n rb =
     (if rb_filled rb + n > length (rb_data rb)
      then Panic ''filled must not become larger than initialized''
      else Done (rb\<lparr>rb_filled := rb_filled rb + n\<rparr>))"

definition read_buf_drop :: "updating_read_buf \<Rightarrow> pooled_buffer \<Rightarrow> pooled_buffer" where
  "read_buf_drop rb target =
     (set_chunk (rb_data rb) target)\<lparr>filled_len := filled_len target + rb_filled rb\<rparr>"

text \<open>
  A device that receives into a slice returns the slice and how many bytes it received. On an error
  the buffer goes back to its pool.
\<close>

definition read_frame ::
  "(bytes \<Rightarrow> io_error + (bytes \<times> nat)) \<Rightarrow> pooled_buffer \<Rightarrow> buffer_pool option \<Rightarrow>
   ((io_error + pooled_slice) \<times> buffer_pool option) outcome" where
  "read_frame recv self reclaim =
     (let updater = read_buf self
      in case recv (rb_data updater) of
           Inl e \<Rightarrow>
             bind_outcome (pooled_drop (read_buf_drop updater self) reclaim) (\<lambda>r. Done (Inl e, r))
         | Inr (data, len) \<Rightarrow>
             bind_outcome (rb_advance len (updater\<lparr>rb_data := data\<rparr>))
               (\<lambda>updater. Done (Inr (slice_from (read_buf_drop updater self)), reclaim)))"

definition write_frame :: "(bytes \<Rightarrow> io_error + nat) \<Rightarrow> bytes \<Rightarrow> io_error + unit" where
  "write_frame send buf =
     (case send buf of
        Inl e \<Rightarrow> Inl e
      | Inr written_len \<Rightarrow>
          if written_len \<noteq> length buf
          then Inl \<lparr>io_kind = K_Other, raw_os_error = None,
                    io_message = ''Buffer length '' @ show_nat (length buf) @
                      '' != written '' @ show_nat written_len\<rparr>
          else Inr ())"

section \<open>What a device promises\<close>

text \<open>
  A device writes into the slice it is given and never claims more than the slice holds; it sends
  at most the whole buffer.
\<close>

definition device_recv_ok :: "(bytes \<Rightarrow> io_error + (bytes \<times> nat)) \<Rightarrow> bool" where
  "device_recv_ok recv \<longleftrightarrow>
     (\<forall>slice data len. recv slice = Inr (data, len) \<longrightarrow> length data = length slice \<and> len \<le> length slice)"

section \<open>Interleaving\<close>

text \<open>The pool, if it still exists, and the buffers that are checked out of it.\<close>

type_synonym pool_state = "buffer_pool option \<times> pooled_buffer list"

inductive pool_step :: "pool_state \<Rightarrow> pool_state \<Rightarrow> bool" where
  popped: "pop p = Some (b, p') \<Longrightarrow> pool_step (Some p, out) (Some p', b # out)"
| frame_read: "device_recv_ok recv \<Longrightarrow> read_frame recv b r = Done (Inr s, r') \<Longrightarrow>
    pool_step (r, xs @ b # ys) (r', xs @ to_buffer s # ys)"
| frame_failed: "read_frame recv b r = Done (Inl e, r') \<Longrightarrow> pool_step (r, xs @ b # ys) (r', xs @ ys)"
| written: "length chunk = remaining_mut b \<Longrightarrow> advance_mut n (set_chunk chunk b) = Done b' \<Longrightarrow>
    pool_step (r, xs @ b # ys) (r, xs @ b' # ys)"
| dropped: "pooled_drop b r = Done r' \<Longrightarrow> pool_step (r, xs @ b # ys) (r', xs @ ys)"
| pool_closed: "pool_step (Some p, out) (Some (p\<lparr>receiver_closed := True\<rparr>), out)"
| pool_dropped: "pool_step (Some p, out) (None, out)"

inductive pool_reach :: "nat \<Rightarrow> nat \<Rightarrow> pool_state \<Rightarrow> bool" for count buf_size where
  pool_start: "pool_new count buf_size = Done p \<Longrightarrow> pool_reach count buf_size (Some p, [])"
| pool_next: "pool_reach count buf_size c \<Longrightarrow> pool_step c d \<Longrightarrow> pool_reach count buf_size d"

definition wf_buffer :: "nat \<Rightarrow> pooled_buffer \<Rightarrow> bool" where
  "wf_buffer buf_size b \<longleftrightarrow> length (buffer b) = buf_size \<and> filled_len b \<le> buf_size"

text \<open>Every buffer is either in the pool or checked out, and all have the size of the pool.\<close>

definition pool_inv :: "nat \<Rightarrow> nat \<Rightarrow> pool_state \<Rightarrow> bool" where
  "pool_inv count buf_size c \<longleftrightarrow>
     (\<forall>b \<in> set (snd c). wf_buffer buf_size b) \<and>
     (\<forall>p. fst c = Some p \<longrightarrow>
        max_capacity p = count \<and> length (pool p) + length (snd c) \<le> count \<and>
        (\<not> receiver_closed p \<longrightarrow> length (pool p) + length (snd c) = count) \<and>
        (\<forall>b \<in> set (pool p). length b = buf_size) \<and>
        active_gauge p = int (length (snd c)))"

section \<open>Facts\<close>

lemma report_available_simps [simp]:
  "pool (report_available p) = pool p" "max_capacity (report_available p) = max_capacity p"
  "receiver_closed (report_available p) = receiver_closed p"
  "active_gauge (report_available p) = active_gauge p"
  by (simp_all add: report_available_def)

lemma fill_pool_Done:
  assumes "\<not> receiver_closed p" and "length (pool p) + n \<le> max_capacity p"
  shows "fill_pool n buf_size p = Done (p\<lparr>pool := pool p @ replicate n (replicate buf_size 0)\<rparr>)"
  using assms
  by (induction n arbitrary: p) (auto simp: try_send_def channel_capacity_def)

lemma pool_new_Done:
  "0 < count \<Longrightarrow> pool_new count buf_size =
     Done \<lparr>pool = replicate count (replicate buf_size 0), max_capacity = count,
           receiver_closed = False, capacity_gauge = of_nat count, active_gauge = 0\<rparr>"
  by (simp add: pool_new_def fill_pool_Done)

lemma read_buf_drop_wf:
  assumes "wf_buffer n b" and "length (rb_data rb) = remaining_mut b" and "rb_filled rb \<le> remaining_mut b"
  shows "wf_buffer n (read_buf_drop rb b)"
  using assms by (auto simp: wf_buffer_def read_buf_drop_def set_chunk_def remaining_mut_def)

lemma length_chunk_mut [simp]: "length (chunk_mut b) = remaining_mut b"
  by (simp add: chunk_mut_def remaining_mut_def)

lemma device_recvD:
  assumes "device_recv_ok recv" and "recv (chunk_mut b) = Inr (data, len)"
  shows "length data = remaining_mut b" "len \<le> remaining_mut b"
proof -
  have "length data = length (chunk_mut b) \<and> len \<le> length (chunk_mut b)"
    using assms unfolding device_recv_ok_def by blast
  then show "length data = remaining_mut b" "len \<le> remaining_mut b" by simp_all
qed

lemma read_frame_wf:
  assumes "read_frame recv b r = Done (Inr s, r')" and "device_recv_ok recv" and "wf_buffer n b"
  shows "wf_buffer n (to_buffer s) \<and> r' = r"
proof -
  obtain data len where d: "recv (chunk_mut b) = Inr (data, len)"
      and s: "s = slice_from (read_buf_drop \<lparr>rb_data = data, rb_filled = len\<rparr> b)" and "r' = r"
    using assms(1)
    by (auto simp: read_frame_def read_buf_def rb_advance_def bind_outcome_Done_iff Let_def
        split: sum.splits if_splits)
  have "wf_buffer n (read_buf_drop \<lparr>rb_data = data, rb_filled = len\<rparr> b)"
    by (intro read_buf_drop_wf [OF assms(3)]) (simp_all add: device_recvD [OF assms(2) d])
  with s \<open>r' = r\<close> show ?thesis by (simp add: to_buffer_def slice_from_def)
qed

lemma read_frame_failed:
  assumes "read_frame recv b r = Done (Inl e, r')"
  shows "pooled_drop (read_buf_drop (read_buf b) b) r = Done r'"
  using assms
  by (auto simp: read_frame_def bind_outcome_Done_iff Let_def split: sum.splits)

lemma read_buf_unused: "wf_buffer n b \<Longrightarrow> read_buf_drop (read_buf b) b = b"
  by (simp add: read_buf_drop_def read_buf_def set_chunk_def chunk_mut_def)

lemma pooled_drop_Some:
  assumes "length (pool p) < max_capacity p"
  shows "pooled_drop b (Some p) =
    (let p' = report_available (p\<lparr>active_gauge := active_gauge p - 1\<rparr>)
     in Done (Some (if receiver_closed p then p' else p'\<lparr>pool := pool p @ [buffer b]\<rparr>)))"
  using assms by (simp add: pooled_drop_def try_send_def channel_capacity_def Let_def)

lemma pool_inv_room:
  "pool_inv count n (Some p, xs @ b # ys) \<Longrightarrow> length (pool p) < max_capacity p"
  by (simp add: pool_inv_def)

lemma pooled_drop_no_panic:
  assumes "pool_inv count n (r, xs @ b # ys)"
  shows "\<exists>r'. pooled_drop b r = Done r'"
proof (cases r)
  case None
  then show ?thesis by (simp add: pooled_drop_def)
next
  case (Some p)
  then show ?thesis
    using assms pooled_drop_Some [OF pool_inv_room, of count n p xs b ys b] by (simp add: Let_def)
qed

lemma pooled_drop_inv:
  assumes "pool_inv count n (r, xs @ b # ys)" and "pooled_drop b r = Done r'"
  shows "pool_inv count n (r', xs @ ys)"
proof (cases r)
  case None
  with assms show ?thesis by (simp add: pooled_drop_def pool_inv_def)
next
  case (Some p)
  have "length (buffer b) = n"
    using assms(1) by (simp add: pool_inv_def wf_buffer_def)
  then show ?thesis
    using assms Some pooled_drop_Some [OF pool_inv_room, of count n p xs b ys b]
    by (cases "receiver_closed p") (auto simp: pool_inv_def Let_def)
qed

lemma pool_inv_replace:
  assumes "pool_inv count n (r, xs @ b # ys)" and "wf_buffer n b'"
  shows "pool_inv count n (r, xs @ b' # ys)"
  using assms by (auto simp: pool_inv_def)

lemma pool_inv_step:
  assumes "pool_inv count n c" and "pool_step c d"
  shows "pool_inv count n d"
  using assms(2,1)
proof cases
  case (popped p b p' out)
  with assms(1) show ?thesis
    by (auto simp: pop_def pool_inv_def wf_buffer_def split: list.splits)
next
  case (frame_read recv b r s r' xs ys)
  then have "wf_buffer n b" using assms(1) by (simp add: pool_inv_def)
  from read_frame_wf [OF frame_read(4,3) this] frame_read assms(1) show ?thesis
    by (auto intro: pool_inv_replace)
next
  case (frame_failed recv b r e r' xs ys)
  then have "wf_buffer n b" using assms(1) by (simp add: pool_inv_def)
  with read_frame_failed [OF frame_failed(3)] have "pooled_drop b r = Done r'"
    by (simp add: read_buf_unused)
  with frame_failed assms(1) show ?thesis by (auto intro: pooled_drop_inv)
next
  case (written chunk b m b' r xs ys)
  then have "wf_buffer n b" using assms(1) by (simp add: pool_inv_def)
  with written have "wf_buffer n b'"
    by (auto simp: advance_mut_def set_chunk_def wf_buffer_def remaining_mut_def split: if_splits)
  with written assms(1) show ?thesis by (auto intro: pool_inv_replace)
next
  case (dropped b r r' xs ys)
  with assms(1) show ?thesis by (auto intro: pooled_drop_inv)
qed (use assms(1) in \<open>auto simp: pool_inv_def\<close>)

lemma pool_reach_inv: "pool_reach count n c \<Longrightarrow> pool_inv count n c"
proof (induction rule: pool_reach.induct)
  case (pool_start p)
  then have "0 < count" by (auto simp: pool_new_def intro: gr0I)
  with pool_start show ?case
    by (auto simp: pool_new_Done pool_inv_def)
next
  case (pool_next c d)
  then show ?case by (blast intro: pool_inv_step)
qed

text \<open>A device that receives the frame 1, 2.\<close>

definition two_byte_device :: "bytes \<Rightarrow> io_error + (bytes \<times> nat)" where
  "two_byte_device sl =
     (if length sl < 2 then Inl \<lparr>io_kind = K_Other, raw_os_error = None, io_message = []\<rparr>
      else Inr ([1, 2] @ drop 2 sl, 2))"

lemma two_byte_device_ok: "device_recv_ok two_byte_device"
  by (auto simp: device_recv_ok_def two_byte_device_def split: if_splits)

section \<open>Properties\<close>

text \<open>(C14) No buffer is lost or duplicated: in every reachable state of a live pool, the buffers in
  it and the buffers checked out add up to the configured count, all have the configured size, and
  the gauge of active buffers equals the number checked out.\<close>

theorem pool_conservation:
  assumes "pool_reach count buf_size (Some p, out)" and "\<not> receiver_closed p"
  shows "length (pool p) + length out = count \<and>
    (\<forall>b \<in> set (pool p). length b = buf_size) \<and> (\<forall>b \<in> set out. wf_buffer buf_size b) \<and>
    active_gauge p = int (length out)"
  using pool_reach_inv [OF assms(1)] assms(2) by (auto simp: pool_inv_def)

theorem pool_conservation_witness:
  "\<exists>p b. pool_reach 2 3 (Some p, [b]) \<and> length (pool p) + length [b] = 2 \<and> wf_buffer 3 b"
proof -
  let ?p = "\<lparr>pool = [[0, 0, 0], [0, 0, 0]], max_capacity = 2, receiver_closed = False,
     capacity_gauge = 2, active_gauge = 0\<rparr>"
  have "pool_new 2 3 = Done ?p"
    by (simp add: pool_new_Done numeral_2_eq_2 numeral_3_eq_3)
  moreover obtain b p' where "pop ?p = Some (b, p')" and "\<not> receiver_closed p'"
    by (simp add: pop_def)
  ultimately have r: "pool_reach 2 3 (Some p', [b])" and "\<not> receiver_closed p'"
    by (auto intro: pool_next [OF pool_start] popped)
  then show ?thesis
    using pool_conservation [OF r] by auto
qed

text \<open>(C33) The pool never panics and blocks only when it is empty: dropping any buffer that is checked
  out succeeds, also when the pool is gone or closing, and taking a buffer waits exactly when all
  of them are checked out; the buffer that is handed out is empty and has its full room.\<close>

theorem pool_never_full:
  assumes "pool_reach count buf_size (Some p, out)" and "\<not> receiver_closed p" and "b \<in> set out"
  shows "\<not> panics (pooled_drop b (Some p)) \<and> \<not> panics (pooled_drop b None) \<and>
    (pop p = None \<longleftrightarrow> length out = count) \<and>
    (pop p = Some (b', p') \<longrightarrow> buffer_deref b' = [] \<and> remaining_mut b' = buf_size)"
proof -
  obtain xs ys where "out = xs @ b # ys"
    using assms(3) by (meson split_list)
  with pool_reach_inv [OF assms(1)] have i: "pool_inv count buf_size (Some p, xs @ b # ys)"
    by simp
  from pooled_drop_no_panic [OF this] have "\<not> panics (pooled_drop b (Some p))"
    by auto
  with i \<open>out = xs @ b # ys\<close> assms(2) show ?thesis
    by (auto simp: pool_inv_def pop_def pooled_drop_def buffer_deref_def remaining_mut_def
        split: list.splits)
qed

theorem pool_never_full_witness:
  "\<exists>p b. pool_reach 1 4 (Some p, [b]) \<and> \<not> panics (pooled_drop b (Some p)) \<and> pop p = None"
proof -
  let ?p = "\<lparr>pool = [[0, 0, 0, 0]], max_capacity = 1, receiver_closed = False,
     capacity_gauge = 1, active_gauge = 0\<rparr>"
  have "pool_new 1 4 = Done ?p"
    by (simp add: pool_new_Done eval_nat_numeral)
  moreover obtain b p' where "pop ?p = Some (b, p')" and "\<not> receiver_closed p'"
    by (simp add: pop_def)
  ultimately have r: "pool_reach 1 4 (Some p', [b])" and "\<not> receiver_closed p'"
    by (auto intro: pool_next [OF pool_start] popped)
  then show ?thesis
    using pool_never_full [OF r, of b] by auto
qed

text \<open>(C34) A frame that is read is appended: the slice shows what the buffer held before followed by
  exactly the bytes the device received, and nothing of the buffer's earlier use.\<close>

theorem read_frame_appends:
  assumes "wf_buffer n b" and "device_recv_ok recv" and "recv (chunk_mut b) = Inr (data, len)"
  shows "\<exists>s. read_frame recv b r = Done (Inr s, r) \<and> slice_deref s = buffer_deref b @ take len data"
proof -
  note device_recvD [OF assms(2,3)]
  then have "read_frame recv b r =
      Done (Inr (slice_from (read_buf_drop \<lparr>rb_data = data, rb_filled = len\<rparr> b)), r)"
    using assms(3) by (simp add: read_frame_def read_buf_def rb_advance_def)
  then show ?thesis
    using assms(1)
    by (simp add: slice_deref_def slice_from_def buffer_deref_def read_buf_drop_def set_chunk_def
        wf_buffer_def min_absorb2)
qed

theorem read_frame_appends_witness:
  "\<exists>s. read_frame two_byte_device \<lparr>buffer = [9, 9, 9, 9], filled_len = 1\<rparr> None = Done (Inr s, None) \<and>
     slice_deref s = [9, 1, 2]"
  using read_frame_appends [OF _ two_byte_device_ok, of 4 "\<lparr>buffer = [9, 9, 9, 9], filled_len = 1\<rparr>"
      "[1, 2, 9]" 2 None]
  by (simp add: wf_buffer_def chunk_mut_def buffer_deref_def two_byte_device_def)

text \<open>(C35) The gauge of available buffers lags behind a returned buffer: it is set before the buffer
  is sent back, so after every return it is one less than the number of available buffers, and it
  reads zero when one buffer is available again.\<close>

theorem gauge_lags_drop:
  assumes "pooled_drop b (Some p) = Done (Some p')" and "\<not> receiver_closed p"
    and "length (pool p) \<le> max_capacity p"
  shows "capacity_gauge p' = of_nat (length (pool p') - 1) \<and> length (pool p') = length (pool p) + 1"
  using assms
  by (auto simp: pooled_drop_def try_send_def report_available_def channel_capacity_def Let_def
      split: if_splits)

theorem gauge_lags_drop_witness:
  "\<exists>p'. pooled_drop \<lparr>buffer = [0], filled_len = 0\<rparr> (Some \<lparr>pool = [], max_capacity = 1,
       receiver_closed = False, capacity_gauge = 0, active_gauge = 1\<rparr>) = Done (Some p') \<and>
     capacity_gauge p' = 0 \<and> length (pool p') = 1"
proof -
  let ?p = "\<lparr>pool = [], max_capacity = 1, receiver_closed = False, capacity_gauge = 0, active_gauge = 1\<rparr>"
  obtain p' where "pooled_drop \<lparr>buffer = [0], filled_len = 0\<rparr> (Some ?p) = Done (Some p')"
    by (simp add: pooled_drop_def try_send_def channel_capacity_def Let_def)
  with gauge_lags_drop [OF this] show ?thesis by simp
qed

end
