(* ===== verification/Etherparse.thy ===== *)
theory Etherparse
  imports Crates
begin

text \<open>
  The packet headers of the \<^verbatim>\<open>etherparse\<close> crate: the public fields of its header structures, the
  wire images of the headers (RFC 791, RFC 8200) with the Internet checksum (RFC 1071), the
  operations of the crate that the sources call as the parameter \<open>etherparse\<close>, and what its
  documentation promises of them in the locale \<open>etherparse_contract\<close>. A small parser that meets
  the contract is the instance \<open>rfc\<close>.
\<close>

section \<open>Headers\<close>

datatype ip_ecn = NotEct | Ect1 | Ect0 | CongestionExperienced

primrec ecn_bits :: "ip_ecn \<Rightarrow> u8" where
  "ecn_bits NotEct = 0"
| "ecn_bits Ect1 = 1"
| "ecn_bits Ect0 = 2"
| "ecn_bits CongestionExperienced = 3"

definition ecn_of_bits :: "u8 \<Rightarrow> ip_ecn" where
  "ecn_of_bits b =
     (if b = 0 then NotEct else if b = 1 then Ect1 else if b = 2 then Ect0 else CongestionExperienced)"

record ipv4_header =
  dscp :: u8
  ecn :: ip_ecn
  total_len :: u16
  identification :: u16
  dont_fragment :: bool
  more_fragments :: bool
  fragment_offset :: u16
  time_to_live :: u8
  protocol :: u8
  header_checksum :: u16
  source4 :: bytes
  destination4 :: bytes
  options4 :: bytes

record ipv6_header =
  traffic_class :: u8
  flow_label :: u32
  payload_length :: u16
  next_header :: u8
  hop_limit :: u8
  source6 :: bytes
  destination6 :: bytes

datatype ip_headers = Ipv4Headers ipv4_header | Ipv6Headers ipv6_header

text \<open>The source and destination addresses of a sliced packet; an ARP packet has none.\<close>

datatype internet_slice = Ipv4Slice u32 u32 | Ipv6Slice u128 u128 | ArpSlice

datatype dest_unreachable_header = NetworkUnknown | Host | FragmentationNeeded u16
datatype dest_unreachable_code = NoRoute | Address

datatype icmpv4_type = DestinationUnreachable4 dest_unreachable_header
datatype icmpv6_type = DestinationUnreachable6 dest_unreachable_code | PacketTooBig u32

section \<open>Wire images\<close>

definition v4_image :: "ipv4_header \<Rightarrow> bytes" where
  "v4_image h =
     [0x40 OR of_nat (5 + length (options4 h) div 4), push_bit 2 (dscp h) OR ecn_bits (ecn h)] @
     be_bytes 2 (total_len h) @ be_bytes 2 (identification h) @
     [(if dont_fragment h then 0x40 else 0) OR (if more_fragments h then 0x20 else 0) OR
        ucast (drop_bit 8 (fragment_offset h)),
      ucast (fragment_offset h), time_to_live h, protocol h] @
     be_bytes 2 (header_checksum h) @ source4 h @ destination4 h @ options4 h"

definition v6_image :: "ipv6_header \<Rightarrow> bytes" where
  "v6_image h =
     [0x60 OR drop_bit 4 (traffic_class h),
      push_bit 4 (traffic_class h) OR ucast (drop_bit 16 (flow_label h)),
      ucast (drop_bit 8 (flow_label h)), ucast (flow_label h)] @
     be_bytes 2 (payload_length h) @ [next_header h, hop_limit h] @ source6 h @ destination6 h"

fun words16 :: "bytes \<Rightarrow> nat list" where
  "words16 (a # b # bs) = (256 * unat a + unat b) # words16 bs"
| "words16 [a] = [256 * unat a]"
| "words16 [] = []"

text \<open>The one's complement sum of 16-bit words, and the checksum over a header.\<close>

definition ones_sum :: "nat list \<Rightarrow> nat" where
  "ones_sum ws = (let s = sum_list ws in if s = 0 then 0 else 1 + (s - 1) mod 65535)"

definition inet_checksum :: "bytes \<Rightarrow> u16" where
  "inet_checksum bs = of_nat (65535 - ones_sum (words16 bs))"

text \<open>A receiver accepts a header whose words sum up to all ones.\<close>

definition checksum_valid :: "bytes \<Rightarrow> bool" where
  "checksum_valid bs \<longleftrightarrow> ones_sum (words16 bs) = 65535"

section \<open>The operations of the crate\<close>

record etherparse =
  ip_from_slice :: "bytes \<Rightarrow> ip_headers option"
  v4_header_len :: "ipv4_header \<Rightarrow> nat"
  v4_to_bytes :: "ipv4_header \<Rightarrow> bytes"
  v4_calc_checksum :: "ipv4_header \<Rightarrow> u16"
  v4_default :: ipv4_header
  v6_to_bytes :: "ipv6_header \<Rightarrow> bytes"
  v6_ecn :: "ipv6_header \<Rightarrow> ip_ecn"
  v6_set_ecn :: "ip_ecn \<Rightarrow> ipv6_header \<Rightarrow> ipv6_header"
  sliced_from_ip :: "bytes \<Rightarrow> anyhow + internet_slice option"
  icmpv4_packet :: "ipv4_header \<Rightarrow> icmpv4_type \<Rightarrow> bytes \<Rightarrow> bytes"
  icmpv6_packet :: "bytes \<Rightarrow> bytes \<Rightarrow> u8 \<Rightarrow> icmpv6_type \<Rightarrow> bytes \<Rightarrow> bytes"
  debug_slice :: "internet_slice \<Rightarrow> string"

text \<open>
  Parsing reads the wire image of the header; it drops the reserved bit of the IPv4 flags. A
  checksum is calculated as if its field were zero. A built ICMP packet has the given addresses in
  its header and ends in the payload after the eight bytes of the ICMP header.
\<close>

locale etherparse_contract =
  fixes ep :: etherparse
  assumes parse4: "ip_from_slice ep buf = Some (Ipv4Headers h) \<Longrightarrow>
      20 + length (options4 h) \<le> length buf \<and> length (options4 h) mod 4 = 0 \<and>
      length (source4 h) = 4 \<and> length (destination4 h) = 4 \<and>
      v4_image h = (take (20 + length (options4 h)) buf)[6 := buf ! 6 AND 0x7F]"
    and header_len4: "v4_header_len ep h = 20 + length (options4 h)"
    and to_bytes4: "v4_to_bytes ep h = v4_image h"
    and checksum4: "v4_calc_checksum ep h = inet_checksum (v4_image (h\<lparr>header_checksum := 0\<rparr>))"
    and options_default: "options4 (v4_default ep) = []"
    and parse6: "ip_from_slice ep buf = Some (Ipv6Headers h6) \<Longrightarrow>
      40 \<le> length buf \<and> v6_image h6 = take 40 buf"
    and to_bytes6: "v6_to_bytes ep h6 = v6_image h6"
    and ecn6: "ecn_bits (v6_ecn ep h6) = traffic_class h6 AND 3"
    and set_ecn6: "v6_set_ecn ep x h6 = h6\<lparr>traffic_class := traffic_class h6 AND NOT 3 OR ecn_bits x\<rparr>"
    and slice4: "sliced_from_ip ep buf = Inr (Some (Ipv4Slice s d)) \<Longrightarrow>
      20 \<le> length buf \<and> octets4 s = take 4 (drop 12 buf) \<and> octets4 d = take 4 (drop 16 buf)"
    and slice6: "sliced_from_ip ep buf = Inr (Some (Ipv6Slice s6 d6)) \<Longrightarrow>
      40 \<le> length buf \<and> octets6 s6 = take 16 (drop 8 buf) \<and> octets6 d6 = take 16 (drop 24 buf)"
    and icmp4: "length (source4 h) = 4 \<Longrightarrow> length (destination4 h) = 4 \<Longrightarrow> options4 h = [] \<Longrightarrow>
      length (icmpv4_packet ep h t payload) = 28 + length payload \<and>
      take 4 (drop 12 (icmpv4_packet ep h t payload)) = source4 h \<and>
      take 4 (drop 16 (icmpv4_packet ep h t payload)) = destination4 h \<and>
      drop 28 (icmpv4_packet ep h t payload) = payload"
    and icmp6: "length src = 16 \<Longrightarrow> length dst = 16 \<Longrightarrow>
      length (icmpv6_packet ep src dst ttl t6 payload) = 48 + length payload \<and>
      take 16 (drop 8 (icmpv6_packet ep src dst ttl t6 payload)) = src \<and>
      take 16 (drop 24 (icmpv6_packet ep src dst ttl t6 payload)) = dst \<and>
      drop 48 (icmpv6_packet ep src dst ttl t6 payload) = payload"

section \<open>Checksums\<close>

lemma ones_sum_le: "ones_sum ws \<le> 65535"
proof -
  have "(sum_list ws - 1) mod 65535 < 65535" by simp
  then have "1 + (sum_list ws - 1) mod 65535 \<le> 65535" by linarith
  then show ?thesis unfolding ones_sum_def Let_def by presburger
qed

lemma ones_sum_complement:
  assumes "sum_list ws = s" and "sum_list vs = s + (65535 - ones_sum ws)"
  shows "ones_sum vs = 65535"
proof (cases "s = 0")
  case True
  with assms show ?thesis by (simp add: ones_sum_def Let_def)
next
  case False
  let ?q = "(s - 1) div 65535" and ?r = "(s - 1) mod 65535"
  have r: "?r < 65535" by simp
  have "s - 1 = 65535 * ?q + ?r" by (rule mult_div_mod_eq [symmetric])
  then have "s + (65535 - (1 + ?r)) - 1 = 65535 * ?q + 65534"
    using False r by linarith
  then have "(s + (65535 - (1 + ?r)) - 1) mod 65535 = 65534"
    by simp
  with False assms show ?thesis
    by (simp add: ones_sum_def Let_def)
qed

lemma be_bytes_2: "be_bytes 2 (x :: u16) = [ucast (drop_bit 8 x), ucast x]"
  by (simp add: be_bytes_def numeral_2_eq_2)

lemma unat_be_bytes_2: "256 * unat (ucast (drop_bit 8 x) :: u8) + unat (ucast x :: u8) = unat (x :: u16)"
proof -
  have "unat x < 65536" using unsigned_less [of x] by simp
  then have "unat x div 256 < 256" by (simp add: less_mult_imp_div_less)
  moreover have "unat (ucast (drop_bit 8 x) :: u8) = unat x div 256 mod 256"
  proof -
    have "unat (drop_bit 8 x) = drop_bit 8 (unat x)"
      by (rule unat_drop_bit_eq)
    then have "unat (drop_bit 8 x) = unat x div 256"
      by (simp only: drop_bit_eq_div [where 'a = nat]) simp
    then show ?thesis
      by (simp only: unsigned_ucast_eq) (simp add: take_bit_eq_mod)
  qed
  moreover have "unat (ucast x :: u8) = unat x mod 256"
    by (simp add: unsigned_ucast_eq take_bit_eq_mod)
  ultimately show ?thesis by simp
qed

section \<open>An instance\<close>

definition rfc_parse4 :: "bytes \<Rightarrow> ipv4_header option" where
  "rfc_parse4 buf =
     (let n = 4 * unat (buf ! 0 AND 15)
      in if 20 \<le> length buf \<and> drop_bit 4 (buf ! 0) = 4 \<and> 20 \<le> n \<and> n \<le> length buf
         then Some \<lparr>dscp = drop_bit 2 (buf ! 1), ecn = ecn_of_bits (buf ! 1 AND 3),
                    total_len = from_be_bytes [buf ! 2, buf ! 3],
                    identification = from_be_bytes [buf ! 4, buf ! 5],
                    dont_fragment = bit (buf ! 6) 6, more_fragments = bit (buf ! 6) 5,
                    fragment_offset = from_be_bytes [buf ! 6 AND 0x1F, buf ! 7],
                    time_to_live = buf ! 8, protocol = buf ! 9,
                    header_checksum = from_be_bytes [buf ! 10, buf ! 11],
                    source4 = take 4 (drop 12 buf), destination4 = take 4 (drop 16 buf),
                    options4 = take (n - 20) (drop 20 buf)\<rparr>
         else None)"

definition rfc_parse6 :: "bytes \<Rightarrow> ipv6_header option" where
  "rfc_parse6 buf =
     (if 40 \<le> length buf \<and> drop_bit 4 (buf ! 0) = 6
      then Some \<lparr>traffic_class = push_bit 4 (buf ! 0) OR drop_bit 4 (buf ! 1),
                 flow_label = from_be_bytes [buf ! 1 AND 15, buf ! 2, buf ! 3],
                 payload_length = from_be_bytes [buf ! 4, buf ! 5],
                 next_header = buf ! 6, hop_limit = buf ! 7,
                 source6 = take 16 (drop 8 buf), destination6 = take 16 (drop 24 buf)\<rparr>
      else None)"

definition rfc_from_slice :: "bytes \<Rightarrow> ip_headers option" where
  "rfc_from_slice buf =
     (case rfc_parse4 buf of
        Some h \<Rightarrow> Some (Ipv4Headers h)
      | None \<Rightarrow> map_option Ipv6Headers (rfc_parse6 buf))"

definition rfc_sliced :: "bytes \<Rightarrow> anyhow + internet_slice option" where
  "rfc_sliced buf =
     (case rfc_from_slice buf of
        Some (Ipv4Headers h) \<Rightarrow>
          Inr (Some (Ipv4Slice (from_be_bytes (source4 h)) (from_be_bytes (destination4 h))))
      | Some (Ipv6Headers h) \<Rightarrow>
          Inr (Some (Ipv6Slice (from_be_bytes (source6 h)) (from_be_bytes (destination6 h))))
      | None \<Rightarrow> Inl (Foreign ''SliceError''))"

primrec icmp4_bytes :: "icmpv4_type \<Rightarrow> bytes" where
  "icmp4_bytes (DestinationUnreachable4 c) =
     (case c of
        NetworkUnknown \<Rightarrow> [3, 6, 0, 0, 0, 0, 0, 0]
      | Host \<Rightarrow> [3, 1, 0, 0, 0, 0, 0, 0]
      | FragmentationNeeded mtu \<Rightarrow> [3, 4, 0, 0, 0, 0] @ be_bytes 2 mtu)"

primrec icmp6_bytes :: "icmpv6_type \<Rightarrow> bytes" where
  "icmp6_bytes (DestinationUnreachable6 c) =
     (case c of NoRoute \<Rightarrow> [1, 0, 0, 0, 0, 0, 0, 0] | Address \<Rightarrow> [1, 3, 0, 0, 0, 0, 0, 0])"
| "icmp6_bytes (PacketTooBig mtu) = [2, 0, 0, 0] @ be_bytes 4 mtu"

definition rfc_icmp4 :: "ipv4_header \<Rightarrow> icmpv4_type \<Rightarrow> bytes \<Rightarrow> bytes" where
  "rfc_icmp4 h t payload =
     v4_image (h\<lparr>protocol := 1, total_len := of_nat (28 + length payload)\<rparr>) @ icmp4_bytes t @ payload"

definition rfc_icmp6 :: "bytes \<Rightarrow> bytes \<Rightarrow> u8 \<Rightarrow> icmpv6_type \<Rightarrow> bytes \<Rightarrow> bytes" where
  "rfc_icmp6 src dst ttl t payload =
     v6_image \<lparr>traffic_class = 0, flow_label = 0, payload_length = of_nat (8 + length payload),
               next_header = 58, hop_limit = ttl, source6 = src, destination6 = dst\<rparr> @
     icmp6_bytes t @ payload"

definition rfc :: etherparse where
  "rfc = \<lparr>ip_from_slice = rfc_from_slice, v4_header_len = (\<lambda>h. 20 + length (options4 h)),
     v4_to_bytes = v4_image,
     v4_calc_checksum = (\<lambda>h. inet_checksum (v4_image (h\<lparr>header_checksum := 0\<rparr>))),
     v4_default = \<lparr>dscp = 0, ecn = NotEct, total_len = 0, identification = 0, dont_fragment = True,
       more_fragments = False, fragment_offset = 0, time_to_live = 0, protocol = 255,
       header_checksum = 0, source4 = [0, 0, 0, 0], destination4 = [0, 0, 0, 0], options4 = []\<rparr>,
     v6_to_bytes = v6_image, v6_ecn = (\<lambda>h. ecn_of_bits (traffic_class h AND 3)),
     v6_set_ecn = (\<lambda>x h. h\<lparr>traffic_class := traffic_class h AND NOT 3 OR ecn_bits x\<rparr>),
     sliced_from_ip = rfc_sliced, icmpv4_packet = rfc_icmp4, icmpv6_packet = rfc_icmp6,
     debug_slice = (\<lambda>_. [])\<rparr>"

subsection \<open>Reading and writing bytes\<close>

lemma and_3_eq: "x AND 3 = take_bit 2 x" for x :: u8
  using take_bit_eq_mask [of 2 x] by (simp add: mask_eq_exp_minus_1)

lemma ecn_bits_of_bits: "ecn_bits (ecn_of_bits (x AND 3)) = x AND 3"
proof -
  have "unat (take_bit 2 x) < 4"
    by (simp only: unsigned_take_bit_eq) (simp add: take_bit_eq_mod)
  then have "unat (take_bit 2 x) \<in> {0, 1, 2, 3}"
    by auto
  then obtain k where k: "unat (take_bit 2 x) = k" "k \<in> {0, 1, 2, 3}"
    by blast
  have "take_bit 2 x = of_nat k"
    unfolding k(1) [symmetric] by simp
  with k(2) show ?thesis by (auto simp: and_3_eq ecn_of_bits_def)
qed

lemma split_bits: "push_bit n (drop_bit n b) OR take_bit n b = b" for b :: "'a::len word"
  by (rule bit_word_eqI) (auto simp: bit_simps)

lemma nibbles: "push_bit 4 (drop_bit 4 b) OR (b AND 15) = b" for b :: u8
proof -
  have "b AND 15 = take_bit 4 b"
    using take_bit_eq_mask [of 4 b] by (simp add: mask_eq_exp_minus_1)
  then show ?thesis
    using split_bits [of 4 b] by simp
qed

lemma ecn_byte: "push_bit 2 (drop_bit 2 b) OR ecn_bits (ecn_of_bits (b AND 3)) = b"
  by (simp only: ecn_bits_of_bits) (simp only: and_3_eq split_bits)

lemma be_bytes_from_2: "be_bytes 2 (from_be_bytes [a, b] :: u16) = [a, b]"
proof -
  have "ucast (drop_bit 8 (push_bit 8 (ucast a) OR ucast b :: u16)) = a"
    by (rule bit_word_eqI) (auto simp: bit_simps dest: bit_imp_le_length)
  moreover have "ucast (push_bit 8 (ucast a) OR ucast b :: u16) = b"
    by (rule bit_word_eqI) (auto simp: bit_simps dest: bit_imp_le_length)
  ultimately show ?thesis
    by (simp add: be_bytes_2 from_be_bytes_def)
qed

lemma flag_byte:
  "(if bit b 6 then 0x40 else 0) OR (if bit b 5 then 0x20 else 0) OR (b AND 0x1F) = b AND 0x7F" for b :: u8
proof (rule bit_word_eqI)
  fix n assume "n < LENGTH(8)"
  then have "n \<in> {0, 1, 2, 3, 4, 5, 6, 7}" by auto
  then show "bit ((if bit b 6 then 0x40 else 0) OR (if bit b 5 then 0x20 else 0) OR (b AND 0x1F)) n
      \<longleftrightarrow> bit (b AND 0x7F) n"
    by (elim insertE emptyE) (simp_all add: bit_or_iff bit_and_iff bit_numeral_rec)
qed

lemma unroll12: "12 \<le> length xs \<Longrightarrow>
    take 12 xs = [xs ! 0, xs ! 1, xs ! 2, xs ! 3, xs ! 4, xs ! 5, xs ! 6, xs ! 7, xs ! 8, xs ! 9, xs ! 10, xs ! 11]"
  by (simp add: take_nth upt_rec numeral_eq_Suc)

lemma unroll8: "8 \<le> length xs \<Longrightarrow>
    take 8 xs = [xs ! 0, xs ! 1, xs ! 2, xs ! 3, xs ! 4, xs ! 5, xs ! 6, xs ! 7]"
  by (simp add: take_nth upt_rec numeral_eq_Suc)

text \<open>An IPv4 header as its first twelve bytes, its addresses and its options.\<close>

lemma v4_split:
  assumes "20 \<le> n" and "n \<le> length buf"
  shows "take n buf = [buf ! 0, buf ! 1, buf ! 2, buf ! 3, buf ! 4, buf ! 5, buf ! 6, buf ! 7,
      buf ! 8, buf ! 9, buf ! 10, buf ! 11] @
    take 4 (drop 12 buf) @ take 4 (drop 16 buf) @ take (n - 20) (drop 20 buf)"
proof -
  have "take n buf = take 12 buf @ take (n - 12) (drop 12 buf)"
    using assms by (intro take_split) simp
  also have "take (n - 12) (drop 12 buf) = take 4 (drop 12 buf) @ take (n - 16) (drop 16 buf)"
    using assms take_split [of 4 "n - 12" "drop 12 buf"] by simp
  also have "take (n - 16) (drop 16 buf) = take 4 (drop 16 buf) @ take (n - 20) (drop 20 buf)"
    using assms take_split [of 4 "n - 16" "drop 16 buf"] by simp
  also have "take 12 buf = [buf ! 0, buf ! 1, buf ! 2, buf ! 3, buf ! 4, buf ! 5, buf ! 6, buf ! 7,
      buf ! 8, buf ! 9, buf ! 10, buf ! 11]"
    using assms by (intro unroll12) simp
  finally show ?thesis by simp
qed

lemma v6_split:
  assumes "40 \<le> length buf"
  shows "take 40 buf = [buf ! 0, buf ! 1, buf ! 2, buf ! 3, buf ! 4, buf ! 5, buf ! 6, buf ! 7] @
    take 16 (drop 8 buf) @ take 16 (drop 24 buf)"
proof -
  have "take 40 buf = take 8 buf @ take 32 (drop 8 buf)"
    using take_split [of 8 40 buf] by simp
  also have "take 32 (drop 8 buf) = take 16 (drop 8 buf) @ take 16 (drop 24 buf)"
    using take_split [of 16 32 "drop 8 buf"] by simp
  also have "take 8 buf = [buf ! 0, buf ! 1, buf ! 2, buf ! 3, buf ! 4, buf ! 5, buf ! 6, buf ! 7]"
    using assms by (intro unroll8) simp
  finally show ?thesis by simp
qed

lemma version_byte:
  fixes b :: u8
  assumes "drop_bit 4 b = 4" and "4 * unat (b AND 15) = n" and "20 \<le> n"
  shows "0x40 OR of_nat (5 + (n - 20) div 4) = b"
proof -
  have *: "5 + (n - 20) div 4 = unat (b AND 15)"
    using assms(2,3) by auto
  have "(of_nat (5 + (n - 20) div 4) :: u8) = b AND 15"
    unfolding * by simp
  then show ?thesis
    using nibbles [of b] assms(1) by simp
qed

lemma fragment_bytes:
  "ucast (drop_bit 8 (from_be_bytes [a, b] :: u16)) = a" "ucast (from_be_bytes [a, b] :: u16) = b"
  using be_bytes_from_2 [of a b] by (simp_all add: be_bytes_2)

lemma rfc_parse4_image:
  assumes "rfc_parse4 buf = Some h"
  shows "20 + length (options4 h) \<le> length buf \<and> length (options4 h) mod 4 = 0 \<and>
    length (source4 h) = 4 \<and> length (destination4 h) = 4 \<and>
    v4_image h = (take (20 + length (options4 h)) buf)[6 := buf ! 6 AND 0x7F]"
proof -
  define n where "n = 4 * unat (buf ! 0 AND 15)"
  have n: "drop_bit 4 (buf ! 0) = 4" "20 \<le> n" "n \<le> length buf"
    using assms by (auto simp: rfc_parse4_def n_def Let_def split: if_splits)
  have h: "h = \<lparr>dscp = drop_bit 2 (buf ! 1), ecn = ecn_of_bits (buf ! 1 AND 3),
      total_len = from_be_bytes [buf ! 2, buf ! 3], identification = from_be_bytes [buf ! 4, buf ! 5],
      dont_fragment = bit (buf ! 6) 6, more_fragments = bit (buf ! 6) 5,
      fragment_offset = from_be_bytes [buf ! 6 AND 0x1F, buf ! 7],
      time_to_live = buf ! 8, protocol = buf ! 9, header_checksum = from_be_bytes [buf ! 10, buf ! 11],
      source4 = take 4 (drop 12 buf), destination4 = take 4 (drop 16 buf),
      options4 = take (n - 20) (drop 20 buf)\<rparr>"
    using assms unfolding rfc_parse4_def n_def [symmetric] Let_def by (simp split: if_splits)
  have l: "length (options4 h) = n - 20"
    using n by (simp add: h)
  have "v4_image h = [buf ! 0, buf ! 1, buf ! 2, buf ! 3, buf ! 4, buf ! 5, buf ! 6 AND 0x7F, buf ! 7,
      buf ! 8, buf ! 9, buf ! 10, buf ! 11] @
    take 4 (drop 12 buf) @ take 4 (drop 16 buf) @ take (n - 20) (drop 20 buf)"
    unfolding v4_image_def l version_byte [OF n(1) n_def [symmetric] n(2)]
    unfolding h ipv4_header.simps ecn_byte be_bytes_from_2 fragment_bytes flag_byte by simp
  moreover have "20 + length (options4 h) = n" using l n by simp
  moreover have "(n - 20) mod 4 = 0"
    using n(2) by (simp add: n_def mod_eq_0_iff_dvd dvd_diff_nat)
  ultimately show ?thesis
    using n v4_split [OF n(2,3)] l by (simp add: h)
qed

lemma and_15_eq: "x AND 15 = take_bit 4 x" for x :: u8
  using take_bit_eq_mask [of 4 x] by (simp add: mask_eq_exp_minus_1)

lemma class_bytes:
  fixes a b :: u8
  shows "drop_bit 4 (push_bit 4 a OR drop_bit 4 b) = take_bit 4 a"
    "push_bit 4 (push_bit 4 a OR drop_bit 4 b) = push_bit 4 (drop_bit 4 b)"
  by (rule bit_word_eqI; auto simp: bit_simps dest: bit_imp_le_length)+

lemma flow_bytes:
  fixes a b c :: u8
  defines "w \<equiv> from_be_bytes [take_bit 4 a, b, c] :: u32"
  shows "ucast (drop_bit 16 w) = take_bit 4 a" "ucast (drop_bit 8 w) = b" "ucast w = c"
  unfolding w_def from_be_bytes_def foldl_Cons foldl_Nil
  by (rule bit_word_eqI; auto simp: bit_simps dest: bit_imp_le_length)+

lemma rfc_parse6_image:
  assumes "rfc_parse6 buf = Some h"
  shows "40 \<le> length buf \<and> v6_image h = take 40 buf"
proof -
  have n: "40 \<le> length buf" and v: "drop_bit 4 (buf ! 0) = 6"
    using assms by (auto simp: rfc_parse6_def split: if_splits)
  have h: "h = \<lparr>traffic_class = push_bit 4 (buf ! 0) OR drop_bit 4 (buf ! 1),
      flow_label = from_be_bytes [take_bit 4 (buf ! 1), buf ! 2, buf ! 3],
      payload_length = from_be_bytes [buf ! 4, buf ! 5], next_header = buf ! 6, hop_limit = buf ! 7,
      source6 = take 16 (drop 8 buf), destination6 = take 16 (drop 24 buf)\<rparr>"
    using assms n v by (simp add: rfc_parse6_def and_15_eq)
  have "0x60 OR take_bit 4 (buf ! 0) = buf ! 0"
    using split_bits [of 4 "buf ! 0"] v by simp
  then have "v6_image h = [buf ! 0, buf ! 1, buf ! 2, buf ! 3, buf ! 4, buf ! 5, buf ! 6, buf ! 7] @
      take 16 (drop 8 buf) @ take 16 (drop 24 buf)"
    unfolding v6_image_def h ipv6_header.simps class_bytes flow_bytes be_bytes_from_2 split_bits by simp
  then show ?thesis using v6_split [OF n] n by simp
qed

lemma octets_of_bytes:
  "length bs = 4 \<Longrightarrow> octets4 (from_be_bytes bs) = bs"
  "length bs = 16 \<Longrightarrow> octets6 (from_be_bytes bs) = bs"
  unfolding octets4_def octets6_def by (rule be_bytes_from_be_bytes; simp)+

lemma rfc_sliced4:
  assumes "rfc_sliced buf = Inr (Some (Ipv4Slice s d))"
  shows "20 \<le> length buf \<and> octets4 s = take 4 (drop 12 buf) \<and> octets4 d = take 4 (drop 16 buf)"
proof -
  obtain h where h: "rfc_parse4 buf = Some h" "s = from_be_bytes (source4 h)" "d = from_be_bytes (destination4 h)"
    using assms by (auto simp: rfc_sliced_def rfc_from_slice_def split: option.splits ip_headers.splits)
  then show ?thesis
    using rfc_parse4_image [OF h(1)]
    by (auto simp: octets_of_bytes) (auto simp: rfc_parse4_def Let_def split: if_splits)
qed

lemma rfc_sliced6:
  assumes "rfc_sliced buf = Inr (Some (Ipv6Slice s d))"
  shows "40 \<le> length buf \<and> octets6 s = take 16 (drop 8 buf) \<and> octets6 d = take 16 (drop 24 buf)"
proof -
  obtain h where h: "rfc_parse6 buf = Some h" "s = from_be_bytes (source6 h)" "d = from_be_bytes (destination6 h)"
    using assms by (auto simp: rfc_sliced_def rfc_from_slice_def split: option.splits ip_headers.splits)
  then have "40 \<le> length buf" "source6 h = take 16 (drop 8 buf)" "destination6 h = take 16 (drop 24 buf)"
    by (auto simp: rfc_parse6_def split: if_splits)
  then show ?thesis by (simp add: h octets_of_bytes)
qed

lemma length_v4_image: "length (v4_image h) = 12 + length (source4 h) + length (destination4 h) + length (options4 h)"
  by (simp add: v4_image_def)

lemma length_v6_image: "length (v6_image h) = 8 + length (source6 h) + length (destination6 h)"
  by (simp add: v6_image_def)

lemma length_icmp_bytes: "length (icmp4_bytes t) = 8" "length (icmp6_bytes u) = 8"
  by (cases t; simp split: dest_unreachable_header.splits)
    (cases u; simp split: dest_unreachable_code.splits)

lemma rfc_icmp4_spec:
  assumes "length (source4 h) = 4" and "length (destination4 h) = 4" and "options4 h = []"
  shows "length (rfc_icmp4 h t payload) = 28 + length payload \<and>
    take 4 (drop 12 (rfc_icmp4 h t payload)) = source4 h \<and>
    take 4 (drop 16 (rfc_icmp4 h t payload)) = destination4 h \<and>
    drop 28 (rfc_icmp4 h t payload) = payload"
  using assms unfolding rfc_icmp4_def
  by (simp add: v4_image_def length_icmp_bytes)

lemma rfc_icmp6_spec:
  assumes "length src = 16" and "length dst = 16"
  shows "length (rfc_icmp6 src dst ttl t payload) = 48 + length payload \<and>
    take 16 (drop 8 (rfc_icmp6 src dst ttl t payload)) = src \<and>
    take 16 (drop 24 (rfc_icmp6 src dst ttl t payload)) = dst \<and>
    drop 48 (rfc_icmp6 src dst ttl t payload) = payload"
  using assms unfolding rfc_icmp6_def
  by (simp add: v6_image_def length_icmp_bytes)

lemma rfc_simps:
  "ip_from_slice rfc = rfc_from_slice" "v4_header_len rfc h = 20 + length (options4 h)"
  "v4_to_bytes rfc h = v4_image h"
  "v4_calc_checksum rfc h = inet_checksum (v4_image (h\<lparr>header_checksum := 0\<rparr>))"
  "options4 (v4_default rfc) = []" "v6_to_bytes rfc h6 = v6_image h6"
  "v6_ecn rfc h6 = ecn_of_bits (traffic_class h6 AND 3)"
  "v6_set_ecn rfc x h6 = h6\<lparr>traffic_class := traffic_class h6 AND NOT 3 OR ecn_bits x\<rparr>"
  "sliced_from_ip rfc = rfc_sliced" "icmpv4_packet rfc = rfc_icmp4" "icmpv6_packet rfc = rfc_icmp6"
  by (simp_all add: rfc_def)

lemma rfc_from_slice4: "rfc_from_slice buf = Some (Ipv4Headers h) \<Longrightarrow> rfc_parse4 buf = Some h"
  by (auto simp: rfc_from_slice_def split: option.splits)

lemma rfc_from_slice6: "rfc_from_slice buf = Some (Ipv6Headers h) \<Longrightarrow> rfc_parse6 buf = Some h"
  by (auto simp: rfc_from_slice_def split: option.splits)

interpretation rfc: etherparse_contract rfc
proof (unfold_locales, unfold rfc_simps)
  fix buf h h6 s d s6 d6 t t6 payload src dst ttl x
  show "20 + length (options4 h) \<le> length buf \<and> length (options4 h) mod 4 = 0 \<and>
      length (source4 h) = 4 \<and> length (destination4 h) = 4 \<and>
      v4_image h = (take (20 + length (options4 h)) buf)[6 := buf ! 6 AND 0x7F]"
    if "rfc_from_slice buf = Some (Ipv4Headers h)"
    by (rule rfc_parse4_image [OF rfc_from_slice4 [OF that]])
  show "40 \<le> length buf \<and> v6_image h6 = take 40 buf" if "rfc_from_slice buf = Some (Ipv6Headers h6)"
    by (rule rfc_parse6_image [OF rfc_from_slice6 [OF that]])
qed (rule HOL.refl ecn_bits_of_bits rfc_sliced4 rfc_sliced6 rfc_icmp4_spec rfc_icmp6_spec; assumption)+

end
