(* ===== verification/Ecn.thy ===== *)
theory Ecn
  imports Etherparse Complex_Main
begin

text \<open>
  Congestion handling (\<^verbatim>\<open>src/route/ecn.rs\<close>): marking the ECN field of a packet in place, and the
  probabilistic admission of packets to a filling queue. The parser is the \<open>etherparse\<close>
  parameter; the arithmetic of \<^verbatim>\<open>f32\<close> is the parameter \<open>float_api\<close>.
\<close>

section \<open>Marking packets\<close>

datatype packet_action = Forward | Drop

text \<open>\<^verbatim>\<open>buf[..n].copy_from_slice(src)\<close>, which panics on a range or length mismatch.\<close>

definition copy_to_front :: "nat \<Rightarrow> bytes \<Rightarrow> bytes \<Rightarrow> bytes outcome" where
  "copy_to_front n src buf =
     (if n > length buf then Panic ''range end index out of range''
      else if length src \<noteq> n then Panic ''copy_from_slice: source slice length does not match destination''
      else Done (overwrite_front src buf))"

definition process_packet_congestion :: "etherparse \<Rightarrow> bytes \<Rightarrow> (packet_action \<times> bytes) outcome" where
  "process_packet_congestion ep packet_buffer =
     (case ip_from_slice ep packet_buffer of
        None \<Rightarrow> Done (Drop, packet_buffer)
      | Some (Ipv4Headers h) \<Rightarrow>
          (if ecn h = Ect0 \<or> ecn h = Ect1
           then let h1 = h\<lparr>ecn := CongestionExperienced\<rparr>;
                    h2 = h1\<lparr>header_checksum := v4_calc_checksum ep h1\<rparr>
                in bind_outcome (copy_to_front (v4_header_len ep h2) (v4_to_bytes ep h2) packet_buffer)
                     (\<lambda>buf. Done (Forward, buf))
           else if ecn h = CongestionExperienced then Done (Forward, packet_buffer)
           else Done (Drop, packet_buffer))
      | Some (Ipv6Headers h) \<Rightarrow>
          (if v6_ecn ep h = Ect0 \<or> v6_ecn ep h = Ect1
           then let h1 = v6_set_ecn ep CongestionExperienced h
                in bind_outcome (copy_to_front 40 (v6_to_bytes ep h1) packet_buffer)
                     (\<lambda>buf. Done (Forward, buf))
           else if v6_ecn ep h = CongestionExperienced then Done (Forward, packet_buffer)
           else Done (Drop, packet_buffer)))"

section \<open>Admitting packets\<close>

record 'f float_api =
  fl_lt :: "'f \<Rightarrow> 'f \<Rightarrow> bool"
  fl_le :: "'f \<Rightarrow> 'f \<Rightarrow> bool"
  fl_minus :: "'f \<Rightarrow> 'f \<Rightarrow> 'f"
  fl_times :: "'f \<Rightarrow> 'f \<Rightarrow> 'f"
  fl_div :: "'f \<Rightarrow> 'f \<Rightarrow> 'f"
  fl_one :: 'f
  fl_half :: 'f
  fl_of_nat :: "nat \<Rightarrow> 'f"

text \<open>The number that the generator yields is the second argument.\<close>

definition linear_aqm_rng :: "'f float_api \<Rightarrow> 'f \<Rightarrow> 'f \<Rightarrow> 'f \<Rightarrow> bool" where
  "linear_aqm_rng fa r threshold fill_ratio =
     (if fl_lt fa fill_ratio threshold then True
      else fl_le fa (fl_minus fa fill_ratio threshold)
             (fl_times fa r (fl_minus fa (fl_one fa) threshold)))"

definition linear_aqm :: "'f float_api \<Rightarrow> 'f \<Rightarrow> 'f \<Rightarrow> 'f \<Rightarrow> bool" where
  "linear_aqm fa thread_rng threshold fill_ratio = linear_aqm_rng fa thread_rng threshold fill_ratio"

text \<open>
  What floating point arithmetic promises of its comparisons and of subtraction: rounding is
  monotone. A comparison with a value that is not a number is false.
\<close>

locale float_contract =
  fixes fa :: "'f float_api"
  assumes le_trans: "fl_le fa a b \<Longrightarrow> fl_le fa b c \<Longrightarrow> fl_le fa a c"
    and le_lt_trans: "fl_le fa a b \<Longrightarrow> fl_lt fa b c \<Longrightarrow> fl_lt fa a c"
    and minus_mono: "fl_le fa a b \<Longrightarrow> fl_le fa (fl_minus fa b t) x \<Longrightarrow> fl_le fa (fl_minus fa a t) (fl_minus fa b t)"
begin

lemma aqm_mono:
  assumes "linear_aqm_rng fa r t b" and "fl_le fa a b"
  shows "linear_aqm_rng fa r t a"
proof (cases "fl_lt fa b t")
  case True
  then show ?thesis
    using le_lt_trans [OF assms(2)] by (simp add: linear_aqm_rng_def)
next
  case False
  with assms(1) have "fl_le fa (fl_minus fa b t) (fl_times fa r (fl_minus fa (fl_one fa) t))"
    by (simp add: linear_aqm_rng_def)
  from le_trans [OF minus_mono [OF assms(2) this] this] show ?thesis
    by (simp add: linear_aqm_rng_def)
qed

end

text \<open>Exact real arithmetic.\<close>

definition exact :: "real float_api" where
  "exact = \<lparr>fl_lt = (<), fl_le = (\<le>), fl_minus = (-), fl_times = (*), fl_div = (/), fl_one = 1,
            fl_half = 1 / 2, fl_of_nat = of_nat\<rparr>"

interpretation exact: float_contract exact
  by unfold_locales (simp_all add: exact_def)

section \<open>The bytes of a marked packet\<close>

lemma copy_to_front_Done:
  "length src \<le> length buf \<Longrightarrow> copy_to_front (length src) src buf = Done (src @ drop (length src) buf)"
  by (simp add: copy_to_front_def overwrite_front_def)

lemma or_3_ecn: "(d OR ecn_bits e) OR 3 = d OR 3"
  unfolding or.assoc by (cases e) simp_all

text \<open>The image of a header as its twelve leading bytes and the rest.\<close>

definition v4_rest :: "ipv4_header \<Rightarrow> bytes" where
  "v4_rest h = source4 h @ destination4 h @ options4 h"

lemma v4_image_cons:
  "v4_image h =
     (0x40 OR of_nat (5 + length (options4 h) div 4)) # (push_bit 2 (dscp h) OR ecn_bits (ecn h)) #
     ucast (drop_bit 8 (total_len h)) # ucast (total_len h) #
     ucast (drop_bit 8 (identification h)) # ucast (identification h) #
     ((if dont_fragment h then 0x40 else 0) OR (if more_fragments h then 0x20 else 0) OR
        ucast (drop_bit 8 (fragment_offset h))) #
     ucast (fragment_offset h) # time_to_live h # protocol h #
     ucast (drop_bit 8 (header_checksum h)) # ucast (header_checksum h) # v4_rest h"
  unfolding v4_image_def v4_rest_def be_bytes_2 by simp

lemma v4_image_update:
  "v4_image (h\<lparr>ecn := CongestionExperienced, header_checksum := c\<rparr>) =
     (v4_image h)[1 := v4_image h ! 1 OR 3, 10 := ucast (drop_bit 8 c), 11 := ucast c]"
  unfolding v4_image_cons ipv4_header.simps v4_rest_def
  by (simp add: or_3_ecn)

lemma v4_image_checksum_valid:
  assumes "c = inet_checksum (v4_image (h\<lparr>header_checksum := 0\<rparr>))"
  shows "checksum_valid (v4_image (h\<lparr>header_checksum := c\<rparr>))"
proof -
  let ?z = "words16 (v4_image (h\<lparr>header_checksum := 0\<rparr>))"
  have o: "ones_sum ?z \<le> 65535" by (rule ones_sum_le)
  have "sum_list (words16 (v4_image (h\<lparr>header_checksum := c\<rparr>))) = sum_list ?z + unat c"
    unfolding v4_image_cons v4_rest_def
    using unat_be_bytes_2 [of c] by simp
  moreover have "unat c = 65535 - ones_sum ?z"
  proof -
    have "unat (of_nat m :: u16) = m" if "m < 65536" for m
      using that by (simp add: unat_of_nat)
    from this [of "65535 - ones_sum ?z"] show ?thesis
      unfolding assms inet_checksum_def by linarith
  qed
  ultimately have "sum_list (words16 (v4_image (h\<lparr>header_checksum := c\<rparr>))) =
      sum_list ?z + (65535 - ones_sum ?z)"
    by (simp only:)
  then show ?thesis
    unfolding checksum_valid_def by (rule ones_sum_complement [OF HOL.refl])
qed

lemma update_front:
  "i < n \<Longrightarrow> n \<le> length buf \<Longrightarrow> buf[i := v] = (take n buf)[i := v] @ drop n buf"
  by (metis append_take_drop_id length_take list_update_append1 min.absorb2)

lemma updates_front:
  assumes "11 < n" and "n \<le> length buf"
  shows "(take n buf)[6 := a, 1 := b, 10 := c, 11 := d] @ drop n buf = buf[6 := a, 1 := b, 10 := c, 11 := d]"
proof -
  have "buf[6 := a, 1 := b, 10 := c, 11 := d] =
      (take n buf @ drop n buf)[6 := a, 1 := b, 10 := c, 11 := d]"
    by simp
  also have "\<dots> = (take n buf)[6 := a, 1 := b, 10 := c, 11 := d] @ drop n buf"
    using assms by (simp only: list_update_append1 length_list_update length_take min.absorb2)
  finally show ?thesis by simp
qed

lemma class_ce: "t AND NOT 3 OR 3 = t OR 3" for t :: u8
  by (rule bit_word_eqI) (auto simp: bit_simps)

lemma class_ce_bytes:
  fixes t f :: u8
  shows "drop_bit 4 (t OR 3) = drop_bit 4 t" "push_bit 4 (t OR 3) OR f = (push_bit 4 t OR f) OR 0x30"
proof -
  have "drop_bit 4 (3 :: u8) = 0" "push_bit 4 (3 :: u8) = 0x30"
    by simp_all
  then show "drop_bit 4 (t OR 3) = drop_bit 4 t" "push_bit 4 (t OR 3) OR f = (push_bit 4 t OR f) OR 0x30"
    by (simp_all only: drop_bit_or push_bit_or or.assoc or.commute or.left_commute or.right_neutral or.left_neutral)
qed

lemma or_swap: "(a OR b) OR c = (a OR c) OR b" for a b c :: u8
  by (simp only: ac_simps)

lemma v6_image_update:
  "v6_image (h\<lparr>traffic_class := traffic_class h AND NOT 3 OR 3\<rparr>) = (v6_image h)[1 := v6_image h ! 1 OR 0x30]"
  unfolding v6_image_def class_ce ipv6_header.simps class_ce_bytes(1) class_ce_bytes(2)
  by (simp, rule or_swap)

context etherparse_contract
begin

lemma mark4:
  assumes p: "ip_from_slice ep buf = Some (Ipv4Headers h)" and e: "ecn h = Ect0 \<or> ecn h = Ect1"
  defines "c \<equiv> v4_calc_checksum ep (h\<lparr>ecn := CongestionExperienced\<rparr>)" and "n \<equiv> 20 + length (options4 h)"
    and "buf' \<equiv> buf[6 := buf ! 6 AND 0x7F, 1 := buf ! 1 OR 3,
      10 := ucast (drop_bit 8 (v4_calc_checksum ep (h\<lparr>ecn := CongestionExperienced\<rparr>))),
      11 := ucast (v4_calc_checksum ep (h\<lparr>ecn := CongestionExperienced\<rparr>))]"
  shows "process_packet_congestion ep buf = Done (Forward, buf')" and "checksum_valid (take n buf')"
proof -
  let ?h2 = "h\<lparr>ecn := CongestionExperienced, header_checksum := c\<rparr>"
  have n: "n \<le> length buf" and i: "v4_image h = (take n buf)[6 := buf ! 6 AND 0x7F]"
    using parse4 [OF p] by (simp_all add: n_def)
  have "v4_image h ! 1 = buf ! 1"
    unfolding i using n by (simp add: n_def)
  then have h2: "v4_image ?h2 = (take n buf)[6 := buf ! 6 AND 0x7F, 1 := buf ! 1 OR 3,
      10 := ucast (drop_bit 8 c), 11 := ucast c]"
    unfolding v4_image_update by (simp only: i)
  have l: "length (v4_image ?h2) = n"
    unfolding h2 using n by simp
  have b: "v4_image ?h2 @ drop n buf = buf'"
    unfolding h2 buf'_def c_def [symmetric] by (rule updates_front) (use n in \<open>simp_all add: n_def\<close>)
  have "copy_to_front n (v4_image ?h2) buf = Done buf'"
    using copy_to_front_Done [of "v4_image ?h2" buf] l n b by simp
  then show "process_packet_congestion ep buf = Done (Forward, buf')"
    using e by (simp add: process_packet_congestion_def p header_len4 to_bytes4 n_def c_def Let_def)
  have "take n buf' = v4_image ?h2"
    using b l by (metis append_eq_conv_conj)
  moreover have "checksum_valid (v4_image (h\<lparr>ecn := CongestionExperienced, header_checksum := c\<rparr>))"
    by (rule v4_image_checksum_valid [of c "h\<lparr>ecn := CongestionExperienced\<rparr>"]) (simp add: c_def checksum4)
  ultimately show "checksum_valid (take n buf')" by simp
qed

lemma mark6:
  assumes p: "ip_from_slice ep buf = Some (Ipv6Headers h)"
    and e: "v6_ecn ep h = Ect0 \<or> v6_ecn ep h = Ect1"
  shows "process_packet_congestion ep buf = Done (Forward, buf[1 := buf ! 1 OR 0x30])"
proof -
  have n: "40 \<le> length buf" and i: "v6_image h = take 40 buf"
    using parse6 [OF p] by simp_all
  have h2: "v6_to_bytes ep (v6_set_ecn ep CongestionExperienced h) = (take 40 buf)[1 := buf ! 1 OR 0x30]"
    unfolding to_bytes6 set_ecn6 ecn_bits.simps v6_image_update i by simp
  have "copy_to_front 40 ((take 40 buf)[1 := buf ! 1 OR 0x30]) buf =
      Done ((take 40 buf)[1 := buf ! 1 OR 0x30] @ drop 40 buf)"
    using copy_to_front_Done [of "(take 40 buf)[1 := buf ! 1 OR 0x30]" buf] n by simp
  then show ?thesis
    using e update_front [of 1 40 buf] n
    by (auto simp: process_packet_congestion_def p h2 Let_def)
qed

end

section \<open>A concrete packet\<close>

text \<open>An IPv4 header with the ECT(0) codepoint, and an IPv6 header with the ECT(1) codepoint.\<close>

definition ect0_packet :: bytes where
  "ect0_packet = [0x45, 0x02, 0, 24, 0, 0, 0x40, 0, 64, 17, 0, 0, 10, 0, 0, 1, 10, 0, 0, 2, 1, 2, 3, 4]"

definition ect1_packet6 :: bytes where
  "ect1_packet6 = [0x60, 0x10, 0, 0, 0, 4, 17, 64] @ replicate 16 1 @ replicate 16 2 @ [1, 2, 3, 4]"

lemma ect0_parsed: "\<exists>h. ip_from_slice rfc ect0_packet = Some (Ipv4Headers h) \<and> ecn h = Ect0 \<and> options4 h = []"
  by (simp add: rfc_simps rfc_from_slice_def rfc_parse4_def ect0_packet_def ecn_of_bits_def)

lemma ect1_parsed: "\<exists>h. ip_from_slice rfc ect1_packet6 = Some (Ipv6Headers h) \<and> v6_ecn rfc h = Ect1"
proof -
  have "case rfc_from_slice ect1_packet6 of
      Some (Ipv6Headers h) \<Rightarrow> ecn_of_bits (traffic_class h AND 3) = Ect1 | _ \<Rightarrow> False"
    by code_simp
  then show ?thesis
    by (auto simp: rfc_simps split: option.splits ip_headers.splits)
qed

text \<open>Congestion handling is total: it never panics on any input bytes, a packet that is to be
  dropped is left untouched, and the length of the packet never changes.\<close>

lemma congestion_total:
  assumes "etherparse_contract ep"
  shows "\<exists>act buf'. process_packet_congestion ep buf = Done (act, buf') \<and> length buf' = length buf \<and>
    (act = Drop \<longrightarrow> buf' = buf)"
proof (cases "ip_from_slice ep buf")
  case None
  then show ?thesis by (simp add: process_packet_congestion_def)
next
  case (Some x)
  show ?thesis
  proof (cases x)
    case (Ipv4Headers h)
    show ?thesis
    proof (cases "ecn h = Ect0 \<or> ecn h = Ect1")
      case True
      then show ?thesis
        using etherparse_contract.mark4(1) [OF assms Some [unfolded Ipv4Headers]] by auto
    next
      case False
      then show ?thesis using Some Ipv4Headers by (auto simp: process_packet_congestion_def)
    qed
  next
    case (Ipv6Headers h)
    show ?thesis
    proof (cases "v6_ecn ep h = Ect0 \<or> v6_ecn ep h = Ect1")
      case True
      then show ?thesis
        using etherparse_contract.mark6 [OF assms Some [unfolded Ipv6Headers]] by auto
    next
      case False
      then show ?thesis using Some Ipv6Headers by (auto simp: process_packet_congestion_def)
    qed
  qed
qed

section \<open>Properties\<close>



text \<open>Admission is monotone: with the same random number, a packet that is admitted at some fill
  ratio is admitted at every smaller one, for any arithmetic whose rounding is monotone; below the
  threshold every packet is admitted.\<close>

lemma aqm_monotone:
  assumes "float_contract fa" and "fl_le fa a b" and "linear_aqm_rng fa r t b"
  shows "linear_aqm_rng fa r t a \<and> (fl_lt fa a t \<longrightarrow> linear_aqm_rng fa r' t a)"
  using float_contract.aqm_mono [OF assms(1,3,2)] by (simp add: linear_aqm_rng_def)

end
