(* ===== verification/Packet.thy ===== *)
theory Packet
  imports Etherparse Buffer_Pool
begin

text \<open>
  Packets between the TUN device and the peers (\<^verbatim>\<open>src/tun/packet.rs\<close>): the two packet types, the
  addresses of a packet, and the ICMP errors that the node answers with. Debug output and the
  elapsed time that is only recorded in a histogram are not modelled.
\<close>

section \<open>Packets\<close>

text \<open>An instant is a number of nanoseconds.\<close>

record tx_packet =
  tx_data :: bytes
  tx_populated_at :: nat

record rx_packet =
  rx_data :: pooled_slice
  rx_populated_at :: nat

definition tx_new :: "nat \<Rightarrow> bytes \<Rightarrow> tx_packet" where
  "tx_new now data = \<lparr>tx_data = data, tx_populated_at = now\<rparr>"

definition rx_new :: "nat \<Rightarrow> pooled_slice \<Rightarrow> rx_packet" where
  "rx_new now data = \<lparr>rx_data = data, rx_populated_at = now\<rparr>"

definition tx_deref :: "tx_packet \<Rightarrow> bytes" where
  "tx_deref self = tx_data self"

definition rx_deref :: "rx_packet \<Rightarrow> bytes" where
  "rx_deref self = slice_deref (rx_data self)"

section \<open>Addresses of a packet\<close>

definition inet_slice :: "etherparse \<Rightarrow> bytes \<Rightarrow> anyhow + internet_slice" where
  "inet_slice ep bs =
     (case sliced_from_ip ep bs of
        Inl e \<Rightarrow> Inl (Context ''parsing packet IP addresses'' e)
      | Inr net \<Rightarrow>
          (case net of
             None \<Rightarrow> Inl (Message ''no network information in packet'')
           | Some s \<Rightarrow> Inr s))"

fun destination_ip :: "internet_slice \<Rightarrow> ip_addr option" where
  "destination_ip (Ipv4Slice s d) = Some (V4 d)"
| "destination_ip (Ipv6Slice s d) = Some (V6 d)"
| "destination_ip ArpSlice = None"

section \<open>ICMP errors\<close>

record icmp_type =
  type_v4 :: icmpv4_type
  type_v6 :: icmpv6_type

definition unreachable_net :: icmp_type where
  "unreachable_net =
     \<lparr>type_v4 = DestinationUnreachable4 NetworkUnknown, type_v6 = DestinationUnreachable6 NoRoute\<rparr>"

definition unreachable_host :: icmp_type where
  "unreachable_host =
     \<lparr>type_v4 = DestinationUnreachable4 Host, type_v6 = DestinationUnreachable6 Address\<rparr>"

definition packet_too_big :: "u16 \<Rightarrow> icmp_type" where
  "packet_too_big mtu =
     \<lparr>type_v4 = DestinationUnreachable4 (FragmentationNeeded mtu), type_v6 = PacketTooBig (ucast mtu)\<rparr>"

record icmp_gateway =
  own_ipv4 :: "u32 option"
  own_ipv6 :: "u128 option"

definition from_addr :: "ip_addr \<Rightarrow> icmp_gateway" where
  "from_addr addr =
     (let gateway = \<lparr>own_ipv4 = None, own_ipv6 = None\<rparr>
      in case addr of
           V4 ip \<Rightarrow> gateway\<lparr>own_ipv4 := Some ip\<rparr>
         | V6 ip \<Rightarrow> gateway\<lparr>own_ipv6 := Some ip\<rparr>)"

text \<open>The derived \<^verbatim>\<open>Debug\<close> form of a gateway.\<close>

definition debug_option :: "('a \<Rightarrow> string) \<Rightarrow> 'a option \<Rightarrow> string" where
  "debug_option f x = (case x of None \<Rightarrow> ''None'' | Some y \<Rightarrow> ''Some('' @ f y @ '')'')"

definition debug_gateway :: "icmp_gateway \<Rightarrow> string" where
  "debug_gateway g =
     ''IcmpGateway { own_ipv4: '' @ debug_option show_ipv4 (own_ipv4 g) @
     '', own_ipv6: '' @ debug_option show_ipv6 (own_ipv6 g) @ '' }''"

text \<open>
  Writing a built packet into a buffer that has room for the given number of bytes: what does not
  fit is an error, with the buffer filled up.
\<close>

definition build_write :: "nat \<Rightarrow> string \<Rightarrow> bytes \<Rightarrow> (anyhow + unit) \<times> bytes" where
  "build_write room what packet =
     (if length packet \<le> room then (Inr (), packet)
      else (Inl (Context what (Foreign ''BuildWriteError'')), take room packet))"

text \<open>The result, and what has been written to the buffer.\<close>

definition generate_reply ::
  "etherparse \<Rightarrow> icmp_gateway \<Rightarrow> nat \<Rightarrow> bytes \<Rightarrow> icmp_type \<Rightarrow> (anyhow + ip_addr) \<times> bytes" where
  "generate_reply ep self room original_packet icmp_type =
     (if original_packet = [] then (Inl (Message ''Empty packet''), [])
      else
        let icmp_payload = take (min (length original_packet) 64) original_packet
        in case inet_slice ep original_packet of
             Inl e \<Rightarrow> (Inl e, [])
           | Inr sl \<Rightarrow>
               (case (sl, own_ipv4 self, own_ipv6 self) of
                  (Ipv4Slice src dst, Some gateway, _) \<Rightarrow>
                    let ip_header = (v4_default ep)\<lparr>dont_fragment := False, time_to_live := 64,
                          source4 := octets4 gateway, destination4 := octets4 src\<rparr>;
                        (r, written) = build_write room ''building ICMPv4 packet''
                          (icmpv4_packet ep ip_header (type_v4 icmp_type) icmp_payload)
                    in (case r of Inl e \<Rightarrow> Inl e | Inr _ \<Rightarrow> Inr (V4 src), written)
                | (Ipv6Slice src dst, _, Some gateway) \<Rightarrow>
                    let (r, written) = build_write room ''building ICMPv6 packet''
                          (icmpv6_packet ep (octets6 gateway) (octets6 src) 64 (type_v6 icmp_type)
                             icmp_payload)
                    in (case r of Inl e \<Rightarrow> Inl e | Inr _ \<Rightarrow> Inr (V6 src), written)
                | _ \<Rightarrow>
                    (Inl (Message (''No address configured/available for protocol '' @
                       debug_slice ep sl @ '': '' @ debug_gateway self)), [])))"

section \<open>Facts\<close>

lemma inet_slice_Inr: "inet_slice ep bs = Inr s \<longleftrightarrow> sliced_from_ip ep bs = Inr (Some s)"
  by (auto simp: inet_slice_def split: sum.splits option.splits)

lemma take_64: "take (min (length xs) 64) xs = take 64 xs"
  by (cases "length xs \<le> 64") simp_all

text \<open>Where the parts of a reply to an IPv4 and to an IPv6 packet are.\<close>

context etherparse_contract
begin

lemma slice4_not_Nil: "sliced_from_ip ep p = Inr (Some (Ipv4Slice s d)) \<Longrightarrow> p \<noteq> []"
  using slice4 [of p s d] by auto

lemma slice6_not_Nil: "sliced_from_ip ep p = Inr (Some (Ipv6Slice s d)) \<Longrightarrow> p \<noteq> []"
  using slice6 [of p s d] by auto

lemma reply4:
  assumes "inet_slice ep p = Inr (Ipv4Slice s d)" and "own_ipv4 g = Some gw" and "92 \<le> room"
  obtains r where "generate_reply ep g room p t = (Inr (V4 s), r)"
    "length r = 28 + min (length p) 64" "take 4 (drop 12 r) = octets4 gw"
    "take 4 (drop 16 r) = take 4 (drop 12 p)" "drop 28 r = take 64 p"
proof -
  let ?h = "(v4_default ep)\<lparr>dont_fragment := False, time_to_live := 64,
    source4 := octets4 gw, destination4 := octets4 s\<rparr>"
  let ?r = "icmpv4_packet ep ?h (type_v4 t) (take 64 p)"
  have sl: "sliced_from_ip ep p = Inr (Some (Ipv4Slice s d))"
    using assms(1) by (simp add: inet_slice_Inr)
  have spec: "length ?r = 28 + length (take 64 p) \<and> take 4 (drop 12 ?r) = octets4 gw \<and>
      take 4 (drop 16 ?r) = octets4 s \<and> drop 28 ?r = take 64 p"
    using icmp4 [of ?h "type_v4 t" "take 64 p"] by (simp add: options_default)
  then have "length ?r \<le> room" using assms(3) by simp
  then have "generate_reply ep g room p t = (Inr (V4 s), ?r)"
    using assms(1,2) slice4_not_Nil [OF sl]
    by (simp add: generate_reply_def take_64 build_write_def Let_def)
  moreover obtain r where "r = ?r" by blast
  ultimately show ?thesis
    using spec slice4 [OF sl] by (intro that [of r]) (simp_all only: length_take)
qed

lemma reply6:
  assumes "inet_slice ep p = Inr (Ipv6Slice s d)" and "own_ipv6 g = Some gw" and "112 \<le> room"
  obtains r where "generate_reply ep g room p t = (Inr (V6 s), r)"
    "length r = 48 + min (length p) 64" "take 16 (drop 8 r) = octets6 gw"
    "take 16 (drop 24 r) = take 16 (drop 8 p)" "drop 48 r = take 64 p"
proof -
  let ?r = "icmpv6_packet ep (octets6 gw) (octets6 s) 64 (type_v6 t) (take 64 p)"
  have sl: "sliced_from_ip ep p = Inr (Some (Ipv6Slice s d))"
    using assms(1) by (simp add: inet_slice_Inr)
  have spec: "length ?r = 48 + length (take 64 p) \<and> take 16 (drop 8 ?r) = octets6 gw \<and>
      take 16 (drop 24 ?r) = octets6 s \<and> drop 48 ?r = take 64 p"
    using icmp6 [of "octets6 gw" "octets6 s"] by simp
  then have "length ?r \<le> room" using assms(3) by simp
  then have "generate_reply ep g room p t = (Inr (V6 s), ?r)"
    using assms(1,2) slice6_not_Nil [OF sl]
    by (simp add: generate_reply_def take_64 build_write_def Let_def)
  moreover obtain r where "r = ?r" by blast
  ultimately show ?thesis
    using spec slice6 [OF sl] by (intro that [of r]) (simp_all only: length_take)
qed

end

lemma generate_reply_no_gateway:
  assumes "p \<noteq> []" and "inet_slice ep p = Inr sl"
    and "(case sl of Ipv4Slice _ _ \<Rightarrow> own_ipv4 g = None | Ipv6Slice _ _ \<Rightarrow> own_ipv6 g = None | ArpSlice \<Rightarrow> True)"
  shows "\<exists>m. generate_reply ep g room p t = (Inl (Message m), [])"
  using assms by (auto simp: generate_reply_def Let_def split: internet_slice.splits option.splits)

section \<open>Properties\<close>

text \<open>(C22) An ICMP error reaches the sender of the packet it is about: the reply comes from the
  gateway's own address of the packet's family, goes to the address in the source field of the
  original packet, and quotes its first 64 bytes and no more, so it never exceeds 112 bytes.\<close>

theorem icmp_reply_to_sender:
  assumes "etherparse_contract ep" and "112 \<le> room"
  shows "(inet_slice ep p = Inr (Ipv4Slice s d) \<and> own_ipv4 g = Some gw \<longrightarrow>
      (\<exists>r. generate_reply ep g room p t = (Inr (V4 s), r) \<and> length r \<le> 92 \<and>
        take 4 (drop 12 r) = octets4 gw \<and> take 4 (drop 16 r) = take 4 (drop 12 p) \<and>
        drop 28 r = take 64 p)) \<and>
    (inet_slice ep p = Inr (Ipv6Slice s' d') \<and> own_ipv6 g = Some gw' \<longrightarrow>
      (\<exists>r. generate_reply ep g room p t = (Inr (V6 s'), r) \<and> length r \<le> 112 \<and>
        take 16 (drop 8 r) = octets6 gw' \<and> take 16 (drop 24 r) = take 16 (drop 8 p) \<and>
        drop 48 r = take 64 p))"
proof (intro conjI impI)
  assume "inet_slice ep p = Inr (Ipv4Slice s d) \<and> own_ipv4 g = Some gw"
  then show "\<exists>r. generate_reply ep g room p t = (Inr (V4 s), r) \<and> length r \<le> 92 \<and>
      take 4 (drop 12 r) = octets4 gw \<and> take 4 (drop 16 r) = take 4 (drop 12 p) \<and> drop 28 r = take 64 p"
    using etherparse_contract.reply4 [OF assms(1), of p s d g gw room t] assms(2) by fastforce
next
  assume "inet_slice ep p = Inr (Ipv6Slice s' d') \<and> own_ipv6 g = Some gw'"
  then show "\<exists>r. generate_reply ep g room p t = (Inr (V6 s'), r) \<and> length r \<le> 112 \<and>
      take 16 (drop 8 r) = octets6 gw' \<and> take 16 (drop 24 r) = take 16 (drop 8 p) \<and> drop 48 r = take 64 p"
    using etherparse_contract.reply6 [OF assms(1), of p s' d' g gw' room t] assms(2) by fastforce
qed

text \<open>The IPv4 packet of the tests, from 192.168.1.10 to 8.8.8.8.\<close>

definition mock_ipv4_packet :: bytes where
  "mock_ipv4_packet = [0x45, 0x00, 0x00, 0x1c, 0x00, 0x00, 0x40, 0x00, 0x40, 0x11, 0xb8, 0x2d, 0xc0, 0xa8,
     0x01, 0x0a, 0x08, 0x08, 0x08, 0x08, 0x0b, 0xb8, 0x0b, 0xb8, 0x00, 0x08, 0x00, 0x00]"

lemma mock_ipv4_slice: "inet_slice rfc mock_ipv4_packet = Inr (Ipv4Slice 0xC0A8010A 0x08080808)"
proof -
  have "from_be_bytes [0xc0, 0xa8, 0x01, 0x0a] = (0xC0A8010A :: u32)"
    "from_be_bytes [0x08, 0x08, 0x08, 0x08] = (0x08080808 :: u32)"
    by code_simp+
  then show ?thesis
    by (simp add: inet_slice_def rfc_simps rfc_sliced_def rfc_from_slice_def rfc_parse4_def
        mock_ipv4_packet_def)
qed

theorem icmp_reply_to_sender_witness:
  "\<exists>r. generate_reply rfc (from_addr (V4 0x08080404)) 128 mock_ipv4_packet (packet_too_big 1400) =
       (Inr (V4 0xC0A8010A), r) \<and> take 4 (drop 16 r) = [0xc0, 0xa8, 0x01, 0x0a] \<and> drop 28 r = mock_ipv4_packet"
proof -
  have g: "own_ipv4 (from_addr (V4 0x08080404)) = Some 0x08080404"
    by (simp add: from_addr_def)
  have "take 4 (drop 12 mock_ipv4_packet) = [0xc0, 0xa8, 0x01, 0x0a]" "take 64 mock_ipv4_packet = mock_ipv4_packet"
    by (simp_all add: mock_ipv4_packet_def)
  then show ?thesis
    using icmp_reply_to_sender [OF rfc.etherparse_contract_axioms, of 128, THEN conjunct1, THEN mp,
        OF _ conjI [OF mock_ipv4_slice g], of "packet_too_big 1400"]
    by auto
qed

text \<open>(C36) No reply is built from a packet that has no sender to answer: an empty packet, one that
  does not parse, an ARP packet and a packet of a family without an own address are all errors, and
  nothing is written to the buffer.\<close>

theorem icmp_reply_errors:
  assumes "p = [] \<or> is_err (inet_slice ep p) \<or>
    (\<exists>sl. inet_slice ep p = Inr sl \<and>
      (case sl of Ipv4Slice _ _ \<Rightarrow> own_ipv4 g = None | Ipv6Slice _ _ \<Rightarrow> own_ipv6 g = None | ArpSlice \<Rightarrow> True))"
  shows "\<exists>e. generate_reply ep g room p t = (Inl e, [])"
proof -
  consider "p = []" | "p \<noteq> []" "is_err (inet_slice ep p)"
    | sl where "p \<noteq> []" "inet_slice ep p = Inr sl"
      "(case sl of Ipv4Slice _ _ \<Rightarrow> own_ipv4 g = None | Ipv6Slice _ _ \<Rightarrow> own_ipv6 g = None | ArpSlice \<Rightarrow> True)"
    using assms by blast
  then show ?thesis
  proof cases
    case 1
    then show ?thesis by (simp add: generate_reply_def)
  next
    case 2
    then show ?thesis by (auto simp: generate_reply_def is_ok_def Let_def split: sum.splits)
  next
    case 3
    then show ?thesis using generate_reply_no_gateway by blast
  qed
qed

theorem icmp_reply_errors_witness:
  "\<exists>e. generate_reply rfc (from_addr (V6 1)) 128 mock_ipv4_packet unreachable_net = (Inl e, [])"
  by (rule icmp_reply_errors) (simp add: mock_ipv4_slice from_addr_def)

end
