(* ===== verification/Dns.thy ===== *)
theory Dns
  imports Text_Format "HOL-Library.Sublist"
begin

text \<open>
  The names of the peers as DNS names (\<^verbatim>\<open>src/dns.rs\<close>): a map from lower-case peer names to the
  addresses negotiated with the peer, and the resolver over it. The test whether a query lies under
  the suffix is a function of the \<^verbatim>\<open>dns_stack\<close> crate, the parameter \<open>matches_suffix\<close>. A string is
  its sequence of bytes.
\<close>

section \<open>Operations\<close>

record peer_names =
  dns_suffix :: string
  name_addresses :: "string \<rightharpoonup> ip_addr list"

datatype dns_reply = Answer "ip_addr list" | NotMine | NxDomain

definition peer_names_new :: "string \<Rightarrow> peer_names" where
  "peer_names_new suf = \<lparr>dns_suffix = suf, name_addresses = Map.empty\<rparr>"

definition names_set :: "string \<Rightarrow> ip_addr list \<Rightarrow> peer_names \<Rightarrow> peer_names" where
  "names_set name addrs self =
     self\<lparr>name_addresses := (name_addresses self)(to_ascii_lowercase name \<mapsto> addrs)\<rparr>"

definition names_remove :: "string \<Rightarrow> peer_names \<Rightarrow> peer_names" where
  "names_remove name self =
     self\<lparr>name_addresses := (name_addresses self)(to_ascii_lowercase name := None)\<rparr>"

text \<open>\<^verbatim>\<open>str::trim_end_matches\<close> for a character, and the slice of a string up to a position that may
  underflow, which panics.\<close>

definition trim_end_matches :: "char \<Rightarrow> string \<Rightarrow> string" where
  "trim_end_matches c s = rev (dropWhile (\<lambda>x. x = c) (rev s))"

definition slice_to_minus :: "string \<Rightarrow> nat \<Rightarrow> string outcome" where
  "slice_to_minus s n =
     (if n \<le> length s then Done (take (length s - n) s) else Panic ''attempt to subtract with overflow'')"

definition resolve :: "(string \<Rightarrow> string \<Rightarrow> bool) \<Rightarrow> peer_names \<Rightarrow> string \<Rightarrow> dns_reply outcome" where
  "resolve matches_suffix self query_name =
     (if \<not> matches_suffix query_name (dns_suffix self) then Done NotMine
      else bind_outcome (slice_to_minus query_name (length (dns_suffix self))) (\<lambda>prefix.
        let label = trim_end_matches (CHR ''.'') prefix
        in if label = [] then Done NxDomain
           else (case name_addresses self label of
                   Some addrs \<Rightarrow> Done (Answer addrs)
                 | None \<Rightarrow> Done NxDomain)))"

section \<open>The suffix test\<close>

text \<open>What the resolver relies on: a name under the suffix ends in it, and the labels under the suffix
  are under it.\<close>

locale suffix_contract =
  fixes matches_suffix :: "string \<Rightarrow> string \<Rightarrow> bool"
  assumes matches_suffix_ends: "matches_suffix n s \<Longrightarrow> suffix s n"
    and matches_under: "matches_suffix (l @ ''.'' @ s) s"
    and matches_bare: "matches_suffix s s"
begin

lemma resolve_total: "\<exists>r. resolve matches_suffix names q = Done r"
proof (cases "matches_suffix q (dns_suffix names)")
  case True
  then have "length (dns_suffix names) \<le> length q"
    using matches_suffix_ends suffix_length_le by blast
  then show ?thesis
    by (auto simp: resolve_def slice_to_minus_def Let_def split: option.splits)
qed (simp add: resolve_def)

lemma resolve_label:
  assumes "l \<noteq> []" and "last l \<noteq> CHR ''.''"
  shows "resolve matches_suffix names (l @ ''.'' @ dns_suffix names) =
    Done (case name_addresses names l of Some addrs \<Rightarrow> Answer addrs | None \<Rightarrow> NxDomain)"
proof -
  have "trim_end_matches (CHR ''.'') (l @ ''.'') = l"
    using assms by (cases l rule: rev_cases) (simp_all add: trim_end_matches_def)
  then show ?thesis
    using assms(1) matches_under [of l "dns_suffix names"]
    by (simp add: resolve_def slice_to_minus_def Let_def split: option.splits)
qed

end

definition label_suffix :: "string \<Rightarrow> string \<Rightarrow> bool" where
  "label_suffix n s \<longleftrightarrow> n = s \<or> suffix (CHR ''.'' # s) n"

interpretation labels: suffix_contract label_suffix
  by unfold_locales (auto simp: label_suffix_def suffix_def)

section \<open>Updates\<close>

datatype name_op = SetName string "ip_addr list" | RemoveName string

fun apply_op :: "name_op \<Rightarrow> peer_names \<Rightarrow> peer_names" where
  "apply_op (SetName n addrs) names = names_set n addrs names"
| "apply_op (RemoveName n) names = names_remove n names"

text \<open>The addresses a history of updates, the latest first, leaves for a name: those of the latest
  update of the name in any capitalisation.\<close>

fun latest :: "string \<Rightarrow> name_op list \<Rightarrow> ip_addr list option" where
  "latest n [] = None"
| "latest n (SetName m addrs # ops) =
     (if to_ascii_lowercase m = to_ascii_lowercase n then Some addrs else latest n ops)"
| "latest n (RemoveName m # ops) =
     (if to_ascii_lowercase m = to_ascii_lowercase n then None else latest n ops)"

lemma names_latest:
  "name_addresses (foldr apply_op ops (peer_names_new s)) (to_ascii_lowercase n) = latest n ops"
  by (induction n ops rule: latest.induct) (auto simp: names_set_def names_remove_def peer_names_new_def)

lemma suffix_kept: "dns_suffix (foldr apply_op ops names) = dns_suffix names"
proof (induction ops)
  case (Cons a ops)
  then show ?case by (cases a) (simp_all add: names_set_def names_remove_def)
qed simp

lemma lower_dot: "ascii_lower c = CHR ''.'' \<longleftrightarrow> c = CHR ''.''"
proof (cases "65 \<le> (of_char c :: nat) \<and> (of_char c :: nat) \<le> 90")
  case True
  then have "(of_char (ascii_lower c) :: nat) = of_char c + 32"
    using of_char_lower [of "of_char c"] by (simp add: ascii_lower_def)
  moreover have "(of_char (CHR ''.'') :: nat) = 46" by simp
  ultimately have "ascii_lower c \<noteq> CHR ''.''" using True by auto
  moreover have "c \<noteq> CHR ''.''" using True by auto
  ultimately show ?thesis by simp
next
  case False
  then show ?thesis by (auto simp: ascii_lower_def)
qed

section \<open>Properties\<close>

text \<open>(C23) The resolver answers with the latest addresses of a peer: after any sequence of updates, a
  query for a peer's name under the suffix, which reaches the resolver in lower case, is answered
  with the addresses of the last update of that name, in whatever capitalisation the updates spelled
  it, and with NXDOMAIN after a removal or for a name never set; and no query at all makes the
  resolver panic.\<close>

theorem dns_answers_latest:
  assumes "suffix_contract ms" and "n \<noteq> []" and "last n \<noteq> CHR ''.''"
  shows "resolve ms (foldr apply_op ops (peer_names_new s)) (to_ascii_lowercase n @ ''.'' @ s) =
      Done (case latest n ops of Some addrs \<Rightarrow> Answer addrs | None \<Rightarrow> NxDomain) \<and>
    (\<exists>r. resolve ms (foldr apply_op ops (peer_names_new s)) q = Done r)"
proof -
  let ?names = "foldr apply_op ops (peer_names_new s)"
  have s: "dns_suffix ?names = s"
    by (simp add: suffix_kept) (simp add: peer_names_new_def)
  have "to_ascii_lowercase n \<noteq> []" "last (to_ascii_lowercase n) \<noteq> CHR ''.''"
    using assms(2,3) by (simp_all add: to_ascii_lowercase_def last_map lower_dot)
  from suffix_contract.resolve_label [OF assms(1) this, of ?names]
  show ?thesis
    using suffix_contract.resolve_total [OF assms(1)] by (simp add: s names_latest)
qed

theorem dns_answers_latest_witness:
  "resolve label_suffix (foldr apply_op [RemoveName ''bob'', SetName ''Alice'' [V4 1], SetName ''bob'' [V4 2]]
     (peer_names_new ''p2p'')) ''alice.p2p'' = Done (Answer [V4 1])"
proof -
  have "to_ascii_lowercase ''aLICE'' = ''alice''" "to_ascii_lowercase ''Alice'' = ''alice''"
    "to_ascii_lowercase ''bob'' = ''bob''"
    by code_simp+
  then show ?thesis
    using dns_answers_latest [OF labels.suffix_contract_axioms, of "''aLICE''"
        "[RemoveName ''bob'', SetName ''Alice'' [V4 1], SetName ''bob'' [V4 2]]" "''p2p''"]
    by simp
qed

end
