(* ===== verification/Config_File.thy ===== *)
theory Config_File
  imports Addr "HOL-Library.Char_ord" "HOL-Library.List_Lexorder"
begin

text \<open>
  The configuration file (\<^verbatim>\<open>src/config.rs\<close>): the configuration, its raw form as the TOML reader
  delivers it, the validation between the two, and loading it from disk. The TOML reader is the
  parameter \<open>toml\<close>, the settings of \<^verbatim>\<open>secure_p2p_transport\<close> are of a type of their own, and the
  order in which a \<^verbatim>\<open>HashMap\<close> yields its keys is the parameter \<open>order\<close>.
\<close>

section \<open>Paths and files\<close>

text \<open>
  A Unix path as \<^verbatim>\<open>std::path\<close> compares paths: whether it is absolute, and its components. Joining
  an absolute path replaces the base; a path without components has no parent.
\<close>

record path =
  is_absolute :: bool
  comps :: "string list"

definition path_parent :: "path \<Rightarrow> path option" where
  "path_parent p = (if comps p = [] then None else Some (p\<lparr>comps := butlast (comps p)\<rparr>))"

definition path_join :: "path \<Rightarrow> path \<Rightarrow> path" where
  "path_join base p = (if is_absolute p then p else base\<lparr>comps := comps base @ comps p\<rparr>)"

definition path_is_empty :: "path \<Rightarrow> bool" where
  "path_is_empty p \<longleftrightarrow> \<not> is_absolute p \<and> comps p = []"

definition path_display :: "path \<Rightarrow> string" where
  "path_display p = (if is_absolute p then ''/'' else '''') @ join_with ''/'' (comps p)"

definition path_file :: "string \<Rightarrow> path" where
  "path_file name = \<lparr>is_absolute = False, comps = [name]\<rparr>"

text \<open>
  The regular files by their contents and permission bits, and the accesses that the operating
  system refuses, with its error. Directories are not files of the store: writing one is refused.
\<close>

datatype access = ReadFile | WriteFile | SetPermissions

record fs =
  files :: "path \<rightharpoonup> string"
  modes :: "path \<Rightarrow> nat"
  refused :: "access \<Rightarrow> path \<Rightarrow> io_error option"

definition path_exists :: "fs \<Rightarrow> path \<Rightarrow> bool" where
  "path_exists s p \<longleftrightarrow> files s p \<noteq> None"

text \<open>The UTF-8 encoded texts.\<close>

definition utf8_cont :: "nat \<Rightarrow> bool" where
  "utf8_cont b \<longleftrightarrow> 128 \<le> b \<and> b \<le> 191"

fun utf8_bytes :: "nat list \<Rightarrow> bool" where
  "utf8_bytes [] \<longleftrightarrow> True"
| "utf8_bytes (b # bs) \<longleftrightarrow>
     (if b < 128 then utf8_bytes bs
      else if 194 \<le> b \<and> b \<le> 223 then
        (case bs of c # r \<Rightarrow> utf8_cont c \<and> utf8_bytes r | _ \<Rightarrow> False)
      else if 224 \<le> b \<and> b \<le> 239 then
        (case bs of c # d # r \<Rightarrow>
             utf8_cont c \<and> utf8_cont d \<and> (b = 224 \<longrightarrow> 160 \<le> c) \<and> (b = 237 \<longrightarrow> c \<le> 159) \<and> utf8_bytes r
         | _ \<Rightarrow> False)
      else if 240 \<le> b \<and> b \<le> 244 then
        (case bs of c # d # e # r \<Rightarrow>
             utf8_cont c \<and> utf8_cont d \<and> utf8_cont e \<and> (b = 240 \<longrightarrow> 144 \<le> c) \<and> (b = 244 \<longrightarrow> c \<le> 143) \<and>
             utf8_bytes r
         | _ \<Rightarrow> False)
      else False)"

definition utf8 :: "string \<Rightarrow> bool" where
  "utf8 s = utf8_bytes (map of_char s)"

definition read_to_string :: "fs \<Rightarrow> path \<Rightarrow> anyhow + string" where
  "read_to_string s p =
     (case refused s ReadFile p of
        Some e \<Rightarrow> Inl (Io e)
      | None \<Rightarrow>
          (case files s p of
             None \<Rightarrow> Inl (Io \<lparr>io_kind = K_NotFound, raw_os_error = Some 2,
                              io_message = ''No such file or directory''\<rparr>)
           | Some t \<Rightarrow>
               if utf8 t then Inr t
               else Inl (Io \<lparr>io_kind = K_InvalidData, raw_os_error = None,
                             io_message = ''stream did not contain valid UTF-8''\<rparr>)))"

section \<open>The configuration\<close>

definition DEFAULT_TUN_DESCRIPTION :: string where
  "DEFAULT_TUN_DESCRIPTION = ''zeroconf-p2p-vpn VPN interface''"

record tun_config =
  tun_name :: "string option"
  tun_description :: string

record dns_config =
  dns_config_suffix :: string

record 'd config =
  subnet :: u16
  private_key_path :: path
  peers :: "string \<rightharpoonup> public_key"
  tun :: tun_config
  discovery :: 'd
  dns :: "dns_config option"

record raw_host =
  raw_subnet :: u16
  raw_private_key_path :: path

record raw_tun =
  raw_name :: "string option"
  raw_description :: "string option"

record raw_dns =
  raw_suffix :: string

record 'd raw_config =
  raw_host :: raw_host
  raw_peers :: "string \<rightharpoonup> string"
  raw_tun :: raw_tun
  raw_discovery :: 'd
  raw_dns :: "raw_dns option"

text \<open>The entries of a \<^verbatim>\<open>HashMap\<close>, in the order it yields its keys.\<close>

definition entries :: "(string set \<Rightarrow> string list) \<Rightarrow> (string \<rightharpoonup> 'v) \<Rightarrow> (string \<times> 'v) list" where
  "entries order m = map (\<lambda>k. (k, the (m k))) (order (dom m))"

definition peer_key_context :: "string \<Rightarrow> string \<Rightarrow> string" where
  "peer_key_context name key =
     ''peer '' @ single_quoted name @ '': decoding public key '' @ single_quoted key"

fun collect_peers ::
  "key_api \<Rightarrow> (string \<times> string) list \<Rightarrow> (string \<rightharpoonup> public_key) \<Rightarrow> anyhow + (string \<rightharpoonup> public_key)" where
  "collect_peers ks [] ps = Inr ps"
| "collect_peers ks ((name, key) # rest) ps =
     (case from_z32 ks key of
        Inl e \<Rightarrow> Inl (Context (peer_key_context name key) e)
      | Inr k \<Rightarrow> collect_peers ks rest (ps(name \<mapsto> k)))"

definition subnet_out_of_range :: "u16 \<Rightarrow> string" where
  "subnet_out_of_range n =
     ''host.subnet 0x'' @ show_hex4 (unat n) @ '' is out of range: only 0x0000..=0x'' @
     show_hex4 (unat MAX_SUBNET) @ '' is allowed''"

definition config_try_from ::
  "key_api \<Rightarrow> (string set \<Rightarrow> string list) \<Rightarrow> 'd raw_config \<Rightarrow> anyhow + 'd config" where
  "config_try_from ks order raw =
     (if MAX_SUBNET < raw_subnet (raw_host raw)
      then Inl (Message (subnet_out_of_range (raw_subnet (raw_host raw))))
      else case collect_peers ks (entries order (raw_peers raw)) Map.empty of
        Inl e \<Rightarrow> Inl e
      | Inr ps \<Rightarrow>
          Inr \<lparr>subnet = raw_subnet (raw_host raw),
               private_key_path = raw_private_key_path (raw_host raw),
               peers = ps,
               tun = \<lparr>tun_name = raw_name (raw_tun raw),
                      tun_description =
                        (case raw_description (raw_tun raw) of
                           None \<Rightarrow> DEFAULT_TUN_DESCRIPTION | Some d \<Rightarrow> d)\<rparr>,
               discovery = raw_discovery raw,
               dns = map_option (\<lambda>d. \<lparr>dns_config_suffix = raw_suffix d\<rparr>) (raw_dns raw)\<rparr>)"

definition config_parse ::
  "key_api \<Rightarrow> (string set \<Rightarrow> string list) \<Rightarrow> (string \<Rightarrow> anyhow + 'd raw_config) \<Rightarrow> string \<Rightarrow>
   anyhow + 'd config" where
  "config_parse ks order toml text =
     (case toml text of
        Inl e \<Rightarrow> Inl (Context ''parsing configuration'' e)
      | Inr raw \<Rightarrow> config_try_from ks order raw)"

definition config_load ::
  "key_api \<Rightarrow> (string set \<Rightarrow> string list) \<Rightarrow> (string \<Rightarrow> anyhow + 'd raw_config) \<Rightarrow> fs \<Rightarrow> path \<Rightarrow>
   anyhow + 'd config" where
  "config_load ks order toml s p =
     (case read_to_string s p of
        Inl e \<Rightarrow> Inl (Context (''reading configuration file '' @ single_quoted (path_display p)) e)
      | Inr contents \<Rightarrow>
          (case config_parse ks order toml contents of
             Inl e \<Rightarrow> Inl (Context (''in configuration file '' @ single_quoted (path_display p)) e)
           | Inr config \<Rightarrow>
               Inr (case path_parent p of
                      Some config_dir \<Rightarrow>
                        config\<lparr>private_key_path := path_join config_dir (private_key_path config)\<rparr>
                    | None \<Rightarrow> config)))"

section \<open>Iteration over a map\<close>

text \<open>The promise of \<^verbatim>\<open>HashMap\<close> iteration: every key once, in no particular order.\<close>

locale hash_order =
  fixes order :: "string set \<Rightarrow> string list"
  assumes order_keys: "finite S \<Longrightarrow> set (order S) = S"
    and order_distinct: "finite S \<Longrightarrow> distinct (order S)"
begin

lemma fst_entries: "finite (dom m) \<Longrightarrow> distinct (map fst (entries order m))"
  using order_distinct by (simp add: entries_def comp_def)

lemma map_of_entries:
  assumes "finite (dom m)"
  shows "map_of (entries order m) = m"
proof
  show "map_of (entries order m) k = m k" for k
  proof (cases "k \<in> dom m")
    case True
    then have "k \<in> set (order (dom m))" by (simp add: order_keys assms)
    then show ?thesis
      using True by (auto simp: entries_def map_of_map_restrict)
  next
    case False
    then have "m k = None" and "k \<notin> set (order (dom m))" by (auto simp: order_keys assms)
    then show ?thesis
      by (simp add: entries_def map_of_map_restrict restrict_map_def)
  qed
qed

lemma set_entries: "finite (dom m) \<Longrightarrow> (k, v) \<in> set (entries order m) \<longleftrightarrow> m k = Some v"
  using map_of_entries [of m] fst_entries [of m] by (metis map_of_eq_Some_iff)

end

interpretation sorted_keys: hash_order sorted_list_of_set
  by unfold_locales auto

interpretation reverse_keys: hash_order "\<lambda>S. rev (sorted_list_of_set S)"
  by unfold_locales auto

section \<open>Facts\<close>

lemma collect_peers_Inr_iff:
  assumes "distinct (map fst kvs)"
  shows "collect_peers ks kvs ps = Inr ps' \<longleftrightarrow>
    (\<forall>(n, s) \<in> set kvs. \<exists>k. from_z32 ks s = Inr k) \<and>
    ps' = (\<lambda>n. case map_of kvs n of None \<Rightarrow> ps n | Some s \<Rightarrow> Some (projr (from_z32 ks s)))"
  using assms
proof (induction kvs arbitrary: ps)
  case Nil
  then show ?case by auto
next
  case (Cons kv kvs)
  obtain n s where kv: "kv = (n, s)" by (cases kv)
  have "map_of kvs n = None"
    using Cons.prems by (simp add: kv map_of_eq_None_iff)
  then have same: "(\<lambda>x. case map_of kvs x of None \<Rightarrow> (ps(n \<mapsto> v)) x | Some s \<Rightarrow> Some (projr (from_z32 ks s))) =
      (\<lambda>x. case map_of ((n, s) # kvs) x of None \<Rightarrow> ps x | Some s \<Rightarrow> Some (projr (from_z32 ks s)))"
    if "v = projr (from_z32 ks s)" for v
    using that by (auto simp: fun_eq_iff split: option.split)
  show ?case
  proof (cases "from_z32 ks s")
    case (Inl e)
    then show ?thesis by (simp add: kv)
  next
    case (Inr k)
    then have "collect_peers ks (kv # kvs) ps = Inr ps' \<longleftrightarrow> collect_peers ks kvs (ps(n \<mapsto> k)) = Inr ps'"
      by (simp add: kv)
    then show ?thesis
      unfolding Cons.IH [OF distinct_tl [OF Cons.prems, unfolded list.map list.sel]]
      using same [of k] Inr by (simp add: kv)
  qed
qed

lemma collect_peers_Inl:
  assumes "collect_peers ks kvs ps = Inl e"
  shows "\<exists>n s e'. (n, s) \<in> set kvs \<and> from_z32 ks s = Inl e' \<and> e = Context (peer_key_context n s) e'"
  using assms by (induction ks kvs ps rule: collect_peers.induct) (auto split: sum.splits)

lemma config_try_from_Inr_iff:
  assumes "hash_order order" and "finite (dom (raw_peers raw))"
  shows "config_try_from ks order raw = Inr c \<longleftrightarrow>
    raw_subnet (raw_host raw) \<le> MAX_SUBNET \<and>
    (\<forall>n s. raw_peers raw n = Some s \<longrightarrow> is_ok (from_z32 ks s)) \<and>
    c = \<lparr>subnet = raw_subnet (raw_host raw),
         private_key_path = raw_private_key_path (raw_host raw),
         peers = (\<lambda>n. map_option (\<lambda>s. projr (from_z32 ks s)) (raw_peers raw n)),
         tun = \<lparr>tun_name = raw_name (raw_tun raw),
                tun_description =
                  (case raw_description (raw_tun raw) of None \<Rightarrow> DEFAULT_TUN_DESCRIPTION | Some d \<Rightarrow> d)\<rparr>,
         discovery = raw_discovery raw,
         dns = map_option (\<lambda>d. \<lparr>dns_config_suffix = raw_suffix d\<rparr>) (raw_dns raw)\<rparr>"
proof -
  let ?kvs = "entries order (raw_peers raw)"
  have d: "distinct (map fst ?kvs)" and m: "map_of ?kvs = raw_peers raw"
    and s: "\<And>k v. (k, v) \<in> set ?kvs \<longleftrightarrow> raw_peers raw k = Some v"
    using hash_order.fst_entries [OF assms] hash_order.map_of_entries [OF assms]
      hash_order.set_entries [OF assms] by blast+
  have all: "(\<forall>(n, s) \<in> set ?kvs. \<exists>k. from_z32 ks s = Inr k) \<longleftrightarrow>
      (\<forall>n s. raw_peers raw n = Some s \<longrightarrow> is_ok (from_z32 ks s))"
    unfolding is_ok_iff s [symmetric] by blast
  have c: "collect_peers ks ?kvs Map.empty = Inr ps \<longleftrightarrow>
      (\<forall>n s. raw_peers raw n = Some s \<longrightarrow> is_ok (from_z32 ks s)) \<and>
      ps = (\<lambda>n. map_option (\<lambda>s. projr (from_z32 ks s)) (raw_peers raw n))" for ps
    unfolding collect_peers_Inr_iff [OF d] m all
    by (simp add: map_option_case)
  show ?thesis
  proof (cases "collect_peers ks ?kvs Map.empty")
    case (Inl e)
    then show ?thesis using c by (auto simp: config_try_from_def)
  next
    case (Inr ps)
    then show ?thesis using c [of ps] by (auto simp: config_try_from_def)
  qed
qed

lemma utf8_ascii: "\<forall>b \<in> set bs. b < 128 \<Longrightarrow> utf8_bytes bs"
  by (induction bs) simp_all

section \<open>Properties\<close>

text \<open>(C25) A configuration is accepted exactly when its subnet fits into 15 bits and every peer key
  decodes, whatever order the hash map yields its entries in. The accepted configuration has exactly
  the peers of the file, each with its decoded key, and the default interface description where the
  file gives none; a rejected one reports the subnet, or a peer whose key does not decode.\<close>

theorem config_validation:
  assumes "hash_order order" and "finite (dom (raw_peers raw))"
  shows "case config_try_from ks order raw of
      Inr c \<Rightarrow>
        subnet c = raw_subnet (raw_host raw) \<and> subnet c \<le> MAX_SUBNET \<and>
        dom (peers c) = dom (raw_peers raw) \<and>
        (\<forall>n s. raw_peers raw n = Some s \<longrightarrow> from_z32 ks s = Inr (the (peers c n))) \<and>
        (raw_description (raw_tun raw) = None \<longrightarrow> tun_description (tun c) = DEFAULT_TUN_DESCRIPTION)
    | Inl e \<Rightarrow>
        MAX_SUBNET < raw_subnet (raw_host raw) \<and>
          e = Message (subnet_out_of_range (raw_subnet (raw_host raw))) \<or>
        (\<exists>n s e'. raw_peers raw n = Some s \<and> from_z32 ks s = Inl e' \<and>
          e = Context (peer_key_context n s) e')"
proof (cases "config_try_from ks order raw")
  case (Inr c)
  from this [unfolded config_try_from_Inr_iff [OF assms]] show ?thesis
    by (fastforce simp: Inr is_ok_iff dom_def)
next
  case (Inl e)
  show ?thesis
  proof (cases "MAX_SUBNET < raw_subnet (raw_host raw)")
    case True
    then show ?thesis by (simp add: config_try_from_def)
  next
    case False
    then have "collect_peers ks (entries order (raw_peers raw)) Map.empty = Inl e"
      using Inl by (simp add: config_try_from_def split: sum.splits)
    from collect_peers_Inl [OF this] show ?thesis
      unfolding hash_order.set_entries [OF assms] by (simp add: Inl)
  qed
qed

text \<open>The raw form of a file with one peer.\<close>

definition sample_raw :: "u16 \<Rightarrow> string \<Rightarrow> unit raw_config" where
  "sample_raw n key =
     \<lparr>raw_host = \<lparr>raw_subnet = n, raw_private_key_path = path_file ''host.raw''\<rparr>,
      raw_peers = [''alice'' \<mapsto> key],
      raw_tun = \<lparr>raw_name = None, raw_description = None\<rparr>, raw_discovery = (), raw_dns = None\<rparr>"

theorem config_validation_witness:
  "(case config_try_from mac sorted_list_of_set (sample_raw 0x7fff (replicate 32 (CHR ''a''))) of
      Inr c \<Rightarrow> subnet c = 0x7fff \<and> dom (peers c) = {''alice''} \<and> tun_description (tun c) = DEFAULT_TUN_DESCRIPTION
    | Inl e \<Rightarrow> False) \<and>
   (case config_try_from mac sorted_list_of_set (sample_raw 0x8000 []) of
      Inr c \<Rightarrow> False | Inl e \<Rightarrow> True)"
proof
  have fin: "finite (dom (raw_peers (sample_raw n key)))" for n key by (simp add: sample_raw_def)
  let ?raw = "sample_raw 0x7fff (replicate 32 (CHR ''a''))"
  have "\<not> MAX_SUBNET < raw_subnet (raw_host ?raw)" by (simp add: sample_raw_def MAX_SUBNET_value)
  moreover have "raw_peers ?raw n = Some s \<Longrightarrow> from_z32 mac s \<noteq> Inl e" for n s e
    by (auto simp: sample_raw_def mac_def split: if_splits)
  ultimately show "case config_try_from mac sorted_list_of_set ?raw of
      Inr c \<Rightarrow> subnet c = 0x7fff \<and> dom (peers c) = {''alice''} \<and> tun_description (tun c) = DEFAULT_TUN_DESCRIPTION
    | Inl e \<Rightarrow> False"
    using config_validation [where ks = mac and raw = ?raw, OF sorted_keys.hash_order_axioms fin]
    by (cases "config_try_from mac sorted_list_of_set ?raw") (auto simp: sample_raw_def split: if_splits)
  show "case config_try_from mac sorted_list_of_set (sample_raw 0x8000 []) of Inr c \<Rightarrow> False | Inl e \<Rightarrow> True"
    by (simp add: config_try_from_def sample_raw_def MAX_SUBNET_value)
qed

end
