(* ===== verification/Generate.thy ===== *)
theory Generate
  imports Config_File
begin

text \<open>
  The \<^verbatim>\<open>generate\<close> command (\<^verbatim>\<open>src/generate.rs\<close>): the template configuration, creating the
  configuration and the key file where they are missing, and the printed lines. Reading and writing
  a key file is done by the \<^verbatim>\<open>secure_p2p_transport\<close> crate, the parameter \<open>key_files\<close>; the fresh key
  is a parameter as well.
\<close>

section \<open>Operations\<close>

definition newline :: string where
  "newline = [CHR 0x0A]"

definition double_quoted :: "string \<Rightarrow> string" where
  "double_quoted s = [CHR 0x22] @ s @ [CHR 0x22]"

definition text_lines :: "string list \<Rightarrow> string" where
  "text_lines ls = concat (map (\<lambda>l. l @ newline) ls)"

definition DEFAULT_KEY_FILE_NAME :: string where
  "DEFAULT_KEY_FILE_NAME = ''zeroconf-p2p-vpn_private.key''"

definition default_config_toml :: string where
  "default_config_toml = text_lines
     [''# zeroconf-p2p-vpn configuration, created by `zeroconf-p2p-vpn generate`.'',
      ''# Fill in the [peers] table below, then run `zeroconf-p2p-vpn <this-file>`.'',
      ''# See example-config.toml for the optional [host] subnet, [tun] and [discovery] settings.'',
      '''',
      ''[host]'',
      ''# This host's Ed25519 private key (raw 32-byte format). A relative path is'',
      ''# resolved next to this config file; `generate` created the key file for you.'',
      ''private_key_path = '' @ double_quoted DEFAULT_KEY_FILE_NAME,
      '''',
      ''[peers]'',
      ''# z-base-32-encoded Ed25519 public keys of allowed peers, each keyed by a name of'',
      ''# your choosing. A peer's key is the '' @ double_quoted ''public key'' @ '' line printed by'',
      ''# `zeroconf-p2p-vpn generate` or `zeroconf-p2p-vpn show` on that peer's machine.'',
      ''# alice = '' @ double_quoted ''ri5s1riaxztowkfasg645kdngnugembhsjwke5qfrktno9qjn8ty'']"

record key_files =
  load_key_from_disk :: "fs \<Rightarrow> path \<Rightarrow> anyhow + secret_key"
  save_key_to_disk :: "fs \<Rightarrow> path \<Rightarrow> secret_key \<Rightarrow> (anyhow + unit) \<times> fs"

text \<open>Writing a whole file; a path without components names no file. Setting permissions.\<close>

definition write_file :: "fs \<Rightarrow> path \<Rightarrow> string \<Rightarrow> (anyhow + unit) \<times> fs" where
  "write_file s p contents =
     (case refused s WriteFile p of
        Some e \<Rightarrow> (Inl (Io e), s)
      | None \<Rightarrow>
          if comps p = [] then (Inl (Io \<lparr>io_kind = K_IsADirectory, raw_os_error = Some 21,
                                        io_message = ''Is a directory''\<rparr>), s)
          else (Inr (), s\<lparr>files := (files s)(p \<mapsto> contents)\<rparr>))"

definition set_permissions :: "fs \<Rightarrow> path \<Rightarrow> nat \<Rightarrow> (anyhow + unit) \<times> fs" where
  "set_permissions s p mode =
     (case refused s SetPermissions p of
        Some e \<Rightarrow> (Inl (Io e), s)
      | None \<Rightarrow> (Inr (), s\<lparr>modes := (modes s)(p := mode)\<rparr>))"

text \<open>The result, the files afterwards and the lines printed.\<close>

definition ensure_config ::
  "key_api \<Rightarrow> (string set \<Rightarrow> string list) \<Rightarrow> (string \<Rightarrow> anyhow + 'd raw_config) \<Rightarrow> fs \<Rightarrow> path \<Rightarrow>
   (anyhow + path) \<times> fs \<times> string list" where
  "ensure_config ks order toml s config_path =
     (if path_exists s config_path then
        (case config_load ks order toml s config_path of
           Inl e \<Rightarrow> (Inl e, s, [])
         | Inr config \<Rightarrow>
             (Inr (private_key_path config), s,
              [''Keeping existing config '' @ single_quoted (path_display config_path) @ ''.'']))
      else
        (case write_file s config_path default_config_toml of
           (Inl e, s') \<Rightarrow>
             (Inl (Context (''writing config file '' @ single_quoted (path_display config_path)) e), s', [])
         | (Inr _, s') \<Rightarrow>
             (let key_path =
                (case (case path_parent config_path of
                         None \<Rightarrow> None
                       | Some dir \<Rightarrow> if \<not> path_is_empty dir then Some dir else None) of
                   Some dir \<Rightarrow> path_join dir (path_file DEFAULT_KEY_FILE_NAME)
                 | None \<Rightarrow> path_file DEFAULT_KEY_FILE_NAME)
              in (Inr key_path, s',
                  [''Wrote template config '' @ single_quoted (path_display config_path) @ ''.'']))))"

definition ensure_key ::
  "key_files \<Rightarrow> secret_key \<Rightarrow> fs \<Rightarrow> path \<Rightarrow> (anyhow + secret_key) \<times> fs \<times> string list" where
  "ensure_key kf fresh s key_path =
     (if path_exists s key_path then
        (case load_key_from_disk kf s key_path of
           Inl e \<Rightarrow>
             (Inl (Context (''reading private key '' @ single_quoted (path_display key_path)) e), s, [])
         | Inr key \<Rightarrow>
             (Inr key, s,
              [''Keeping existing private key '' @ single_quoted (path_display key_path) @ ''.'']))
      else
        (case save_key_to_disk kf s key_path fresh of
           (Inl e, s') \<Rightarrow>
             (Inl (Context (''writing private key '' @ single_quoted (path_display key_path)) e), s', [])
         | (Inr _, s') \<Rightarrow>
             (case set_permissions s' key_path 384 of
                (Inl e, s'') \<Rightarrow>
                  (Inl (Context (''restricting permissions on '' @ single_quoted (path_display key_path)) e),
                   s'', [])
              | (Inr _, s'') \<Rightarrow>
                  (Inr fresh, s'',
                   [''Wrote new private key '' @ single_quoted (path_display key_path) @ ''.'']))))"

definition generate ::
  "key_api \<Rightarrow> (string set \<Rightarrow> string list) \<Rightarrow> (string \<Rightarrow> anyhow + 'd raw_config) \<Rightarrow> key_files \<Rightarrow>
   secret_key \<Rightarrow> fs \<Rightarrow> path \<Rightarrow> (anyhow + secret_key) \<times> fs \<times> string list" where
  "generate ks order toml kf fresh s config_path =
     (case ensure_config ks order toml s config_path of
        (Inl e, s', out) \<Rightarrow> (Inl e, s', out)
      | (Inr key_path, s', out) \<Rightarrow>
          (case ensure_key kf fresh s' key_path of (r, s'', out') \<Rightarrow> (r, s'', out @ out')))"

definition generate_run ::
  "key_api \<Rightarrow> (string set \<Rightarrow> string list) \<Rightarrow> (string \<Rightarrow> anyhow + 'd raw_config) \<Rightarrow> key_files \<Rightarrow>
   secret_key \<Rightarrow> fs \<Rightarrow> path \<Rightarrow> (anyhow + unit) \<times> fs \<times> string list" where
  "generate_run ks order toml kf fresh s config_path =
     (case generate ks order toml kf fresh s config_path of
        (Inl e, s', out) \<Rightarrow> (Inl e, s', out)
      | (Inr key, s', out) \<Rightarrow> (Inr (), s', out @ [''public key: '' @ to_z32 ks (public ks key)]))"

section \<open>What key files promise\<close>

text \<open>
  Saving writes only the key file, and what was saved is loaded again where reading is allowed;
  loading depends on the contents of the file and on whether reading is allowed, not on the other
  files and not on the permission bits. The template is the configuration that its text spells out.
\<close>

locale key_files_contract =
  fixes kf :: key_files
  assumes save_ok: "save_key_to_disk kf s p k = (Inr (), s') \<Longrightarrow>
      \<exists>c m. s' = s\<lparr>files := (files s)(p \<mapsto> c), modes := (modes s)(p := m)\<rparr>"
    and save_err: "save_key_to_disk kf s p k = (Inl e, s') \<Longrightarrow>
      \<exists>fp m. s' = s\<lparr>files := (files s)(p := fp), modes := (modes s)(p := m)\<rparr>"
    and load_saved: "save_key_to_disk kf s p k = (Inr (), s') \<Longrightarrow> length k = 32 \<Longrightarrow>
      refused s ReadFile p = None \<Longrightarrow> load_key_from_disk kf s' p = Inr k"
    and load_local: "files s p = files s' p \<Longrightarrow> refused s = refused s' \<Longrightarrow>
      load_key_from_disk kf s p = load_key_from_disk kf s' p"

definition template_raw :: "'d \<Rightarrow> 'd raw_config" where
  "template_raw d =
     \<lparr>raw_host = \<lparr>raw_subnet = 0, raw_private_key_path = path_file DEFAULT_KEY_FILE_NAME\<rparr>,
      raw_peers = Map.empty, raw_tun = \<lparr>raw_name = None, raw_description = None\<rparr>,
      raw_discovery = d, raw_dns = None\<rparr>"

text \<open>What the TOML reader makes of the template: a host section with the key path, and no peers.\<close>

definition reads_template :: "(string \<Rightarrow> anyhow + 'd raw_config) \<Rightarrow> bool" where
  "reads_template toml = (\<exists>d. toml default_config_toml = Inr (template_raw d))"

section \<open>An instance of the key files\<close>

text \<open>A key file holds the bytes of the key; a file of another length is not a key.\<close>

definition raw_key_files :: key_files where
  "raw_key_files = \<lparr>load_key_from_disk = (\<lambda>s p.
       case refused s ReadFile p of
         Some e \<Rightarrow> Inl (Io e)
       | None \<Rightarrow>
           (case files s p of
              Some c \<Rightarrow>
                if length c = 32 then Inr (map (\<lambda>x. of_nat (of_char x)) c)
                else Inl (Foreign ''TryFromSliceError'')
            | None \<Rightarrow> Inl (Foreign ''NotFound''))),
     save_key_to_disk = (\<lambda>s p k.
       case refused s WriteFile p of
         Some e \<Rightarrow> (Inl (Io e), s)
       | None \<Rightarrow>
           (Inr (), s\<lparr>files := (files s)(p \<mapsto> map (\<lambda>b. char_of (unat b)) k),
                      modes := (modes s)(p := 420)\<rparr>))\<rparr>"

lemma byte_of_char_of [simp]: "of_nat (of_char (char_of (unat b) :: char)) = b" for b :: u8
  by simp

interpretation raw_key: key_files_contract raw_key_files
proof unfold_locales
  fix s s' :: fs and p and k :: secret_key and e
  assume "save_key_to_disk raw_key_files s p k = (Inl e, s')"
  then have "s' = s\<lparr>files := (files s)(p := files s p), modes := (modes s)(p := modes s p)\<rparr>"
    by (auto simp: raw_key_files_def split: option.splits)
  then show "\<exists>fp m. s' = s\<lparr>files := (files s)(p := fp), modes := (modes s)(p := m)\<rparr>"
    by blast
qed (auto simp: raw_key_files_def comp_def split: option.splits)

section \<open>Facts\<close>

lemma utf8_template: "utf8 default_config_toml"
proof -
  have "list_all (\<lambda>c. (of_char c :: nat) < 128) default_config_toml"
    by code_simp
  then show ?thesis
    unfolding utf8_def by (intro utf8_ascii) (simp add: list_all_iff)
qed

lemma config_load_ext:
  assumes "files s p = files s' p" and "refused s = refused s'"
  shows "config_load ks order toml s p = config_load ks order toml s' p"
  unfolding config_load_def read_to_string_def assms ..

lemma write_file_Inr:
  "write_file s p c = (Inr u, s') \<longleftrightarrow>
     refused s WriteFile p = None \<and> comps p \<noteq> [] \<and> s' = s\<lparr>files := (files s)(p \<mapsto> c)\<rparr>"
  by (auto simp: write_file_def split: option.splits)

text \<open>The key path of a template is the one that loading the template yields.\<close>

definition template_key_path :: "path \<Rightarrow> path" where
  "template_key_path p = p\<lparr>comps := butlast (comps p) @ [DEFAULT_KEY_FILE_NAME]\<rparr>"

lemma template_load:
  assumes "reads_template toml" and "hash_order order" and "files s p = Some default_config_toml"
    and "refused s ReadFile p = None" and "comps p \<noteq> []"
  shows "\<exists>c. config_load ks order toml s p = Inr c \<and> private_key_path c = template_key_path p"
proof -
  obtain d where d: "toml default_config_toml = Inr (template_raw d)"
    using assms(1) by (auto simp: reads_template_def)
  have "\<exists>c. config_try_from ks order (template_raw d) = Inr c \<and>
      private_key_path c = path_file DEFAULT_KEY_FILE_NAME"
    by (subst config_try_from_Inr_iff [OF assms(2)]) (simp_all add: template_raw_def)
  then show ?thesis
    using assms(3-5)
    by (auto simp: config_load_def read_to_string_def utf8_template config_parse_def d path_parent_def
        path_join_def path_file_def template_key_path_def)
qed

lemma template_key_path_eq:
  assumes "comps p \<noteq> []"
  shows "(case (case path_parent p of
            None \<Rightarrow> None | Some dir \<Rightarrow> if \<not> path_is_empty dir then Some dir else None) of
          Some dir \<Rightarrow> path_join dir (path_file DEFAULT_KEY_FILE_NAME)
        | None \<Rightarrow> path_file DEFAULT_KEY_FILE_NAME) = template_key_path p"
  using assms
  by (auto simp: path_parent_def path_is_empty_def path_join_def path_file_def template_key_path_def)

lemma ensure_config_cases:
  assumes "ensure_config ks order toml s p = (r, s', out)"
  obtains (failed) e where "r = Inl e" "s' = s"
    | (kept) c where "files s p \<noteq> None" "config_load ks order toml s p = Inr c"
        "r = Inr (private_key_path c)" "s' = s"
    | (written) "files s p = None" "comps p \<noteq> []" "r = Inr (template_key_path p)"
        "s' = s\<lparr>files := (files s)(p \<mapsto> default_config_toml)\<rparr>"
proof (cases "path_exists s p")
  case True
  show ?thesis
  proof (cases "config_load ks order toml s p")
    case (Inl e)
    then show ?thesis using True assms by (intro failed [of e]) (simp_all add: ensure_config_def)
  next
    case (Inr c)
    then show ?thesis
      using True assms by (intro kept [of c]) (simp_all add: ensure_config_def path_exists_def)
  qed
next
  case False
  show ?thesis
  proof (cases "refused s WriteFile p \<noteq> None \<or> comps p = []")
    case True
    then obtain e where "write_file s p default_config_toml = (Inl e, s)"
      by (cases "refused s WriteFile p") (auto simp: write_file_def)
    then show ?thesis using False assms by (intro failed) (auto simp: ensure_config_def)
  next
    case no_fault: False
    then have "write_file s p default_config_toml =
        (Inr (), s\<lparr>files := (files s)(p \<mapsto> default_config_toml)\<rparr>)"
      by (simp add: write_file_def)
    then show ?thesis
      using False no_fault assms
      by (intro written) (auto simp: ensure_config_def path_exists_def Let_def template_key_path_eq)
  qed
qed

context key_files_contract
begin

lemma ensure_key_cases:
  assumes "ensure_key kf fresh s p = (r, s', out)"
  obtains (failed) e fp m where "r = Inl e" "files s p = None"
        "s' = s\<lparr>files := (files s)(p := fp), modes := (modes s)(p := m)\<rparr>"
    | (unreadable) e where "r = Inl e" "files s p \<noteq> None" "s' = s"
    | (kept) k where "files s p \<noteq> None" "load_key_from_disk kf s p = Inr k" "r = Inr k" "s' = s"
    | (created) c m t where "files s p = None" "save_key_to_disk kf s p fresh = (Inr (), t)"
        "t = s\<lparr>files := (files s)(p \<mapsto> c), modes := (modes s)(p := m)\<rparr>" "r = Inr fresh"
        "s' = t\<lparr>modes := (modes t)(p := 384)\<rparr>"
proof (cases "path_exists s p")
  case True
  show ?thesis
  proof (cases "load_key_from_disk kf s p")
    case (Inl e)
    then show ?thesis
      using True assms by (intro unreadable) (auto simp: ensure_key_def path_exists_def)
  next
    case (Inr k)
    then show ?thesis
      using True assms by (intro kept [of k]) (simp_all add: ensure_key_def path_exists_def)
  qed
next
  case False
  then have none: "files s p = None" by (simp add: path_exists_def)
  obtain w t where w: "save_key_to_disk kf s p fresh = (w, t)" by fastforce
  show ?thesis
  proof (cases w)
    case (Inl e)
    then obtain fp m where "t = s\<lparr>files := (files s)(p := fp), modes := (modes s)(p := m)\<rparr>"
      using save_err [of s p fresh e t] w by auto
    then show ?thesis
      using False w Inl assms by (intro failed [OF _ none]) (auto simp: ensure_key_def)
  next
    case (Inr u)
    then obtain c m where t: "t = s\<lparr>files := (files s)(p \<mapsto> c), modes := (modes s)(p := m)\<rparr>"
      using save_ok [of s p fresh t] w by auto
    show ?thesis
    proof (cases "refused t SetPermissions p")
      case None
      then show ?thesis
        using False w Inr assms by (intro created [OF none _ t]) (auto simp: ensure_key_def set_permissions_def)
    next
      case (Some e)
      then show ?thesis
        using False w Inr assms t
        by (intro failed [OF _ none]) (auto simp: ensure_key_def set_permissions_def)
    qed
  qed
qed

lemma ensure_key_again:
  assumes "ensure_key kf fresh s p = (Inr k, s', out)" and "length fresh = 32"
    and "refused s ReadFile p = None"
  shows "\<exists>out'. ensure_key kf fresh' s' p = (Inr k, s', out')"
  using assms(1)
proof (cases rule: ensure_key_cases)
  case (kept k')
  then show ?thesis by (auto simp: ensure_key_def path_exists_def)
next
  case (created c m t)
  have "load_key_from_disk kf s' p = load_key_from_disk kf t p"
    by (rule load_local) (simp_all add: created)
  also have "\<dots> = Inr fresh"
    using load_saved created(2) assms(2,3) by blast
  finally have "load_key_from_disk kf s' p = Inr fresh" .
  moreover have "files s' p \<noteq> None" by (simp add: created)
  ultimately show ?thesis
    using created(4) by (auto simp: ensure_key_def path_exists_def)
qed auto

lemma ensure_key_frame:
  assumes "ensure_key kf fresh s p = (r, s', out)"
  shows "(\<forall>q. q \<noteq> p \<or> files s p \<noteq> None \<longrightarrow> files s' q = files s q) \<and> refused s' = refused s \<and>
    (is_ok r \<longrightarrow> (\<forall>q. files s q = None \<and> files s' q \<noteq> None \<longrightarrow> modes s' q = 384))"
  using assms by (cases rule: ensure_key_cases) auto

lemma generate_again:
  assumes "generate ks order toml kf fresh s p = (Inr k, s', out)" and "hash_order order"
    and "reads_template toml" and "\<And>q. refused s ReadFile q = None" and "length fresh = 32"
  shows "\<exists>out'. generate ks order toml kf fresh' s' p = (Inr k, s', out')"
proof -
  obtain kp t o1 o2 where c: "ensure_config ks order toml s p = (Inr kp, t, o1)"
    and k: "ensure_key kf fresh t kp = (Inr k, s', o2)"
    using assms(1) by (auto simp: generate_def split: prod.splits sum.splits)
  have t: "refused t = refused s" "files t p \<noteq> None" and
    load: "\<exists>cfg. config_load ks order toml t p = Inr cfg \<and> private_key_path cfg = kp"
    using c
  proof (atomize (full), cases rule: ensure_config_cases)
    case written
    then show "(refused t = refused s \<and> files t p \<noteq> None) \<and>
        (\<exists>cfg. config_load ks order toml t p = Inr cfg \<and> private_key_path cfg = kp)"
      using template_load [OF assms(3,2), of t p ks] assms(4) by auto
  qed auto
  have same: "files s' p = files t p" and ref: "refused s' = refused t"
    using ensure_key_frame [OF k] t(2) by auto
  then have "config_load ks order toml s' p = config_load ks order toml t p"
    by (rule config_load_ext)
  with load same t(2) have "\<exists>o3. ensure_config ks order toml s' p = (Inr kp, s', o3)"
    by (auto simp: ensure_config_def path_exists_def)
  moreover have "\<exists>o4. ensure_key kf fresh' s' kp = (Inr k, s', o4)"
    by (rule ensure_key_again [OF k assms(5)]) (simp add: t assms(4))
  ultimately show ?thesis by (auto simp: generate_def)
qed

lemma generate_frame:
  assumes "generate ks order toml kf fresh s p = (r, s', out)"
  shows "files s \<subseteq>\<^sub>m files s' \<and>
    (is_ok r \<longrightarrow> (\<forall>q. q \<noteq> p \<and> files s q = None \<and> files s' q \<noteq> None \<longrightarrow> modes s' q = 384))"
proof -
  obtain cr t o1 where c: "ensure_config ks order toml s p = (cr, t, o1)"
    by (cases "ensure_config ks order toml s p") auto
  then have t: "files s \<subseteq>\<^sub>m files t" "\<And>q. q \<noteq> p \<Longrightarrow> files t q = files s q"
    by (auto elim!: ensure_config_cases simp: map_le_def)
  show ?thesis
  proof (cases cr)
    case (Inl e)
    then show ?thesis using assms c t(1) by (auto simp: generate_def)
  next
    case (Inr kp)
    then obtain o2 where k: "ensure_key kf fresh t kp = (r, s', o2)"
      using assms c by (auto simp: generate_def split: prod.splits)
    note f = ensure_key_frame [OF k]
    have "files t \<subseteq>\<^sub>m files s'"
      unfolding map_le_def using f by (metis domIff)
    then show ?thesis
      using t f map_le_trans by metis
  qed
qed

end

text \<open>A fresh directory, its template and its key.\<close>

definition empty_fs :: fs where
  "empty_fs = \<lparr>files = Map.empty, modes = (\<lambda>_. 0), refused = (\<lambda>_ _. None)\<rparr>"

definition only_template :: "string \<Rightarrow> anyhow + unit raw_config" where
  "only_template t = (if t = default_config_toml then Inr (template_raw ()) else Inl (Foreign ''toml''))"

definition config_in_dir :: path where
  "config_in_dir = \<lparr>is_absolute = True, comps = [''etc'', ''vpn.toml'']\<rparr>"

abbreviation generate_fresh :: "fs \<Rightarrow> (anyhow + secret_key) \<times> fs \<times> string list" where
  "generate_fresh s \<equiv>
     generate mac sorted_list_of_set only_template raw_key_files (replicate 32 7) s config_in_dir"

lemma reads_only_template: "reads_template only_template"
  by (auto simp: reads_template_def only_template_def)

lemma not_template_key_path: "template_key_path config_in_dir \<noteq> config_in_dir"
  by (simp add: template_key_path_def config_in_dir_def DEFAULT_KEY_FILE_NAME_def)

text \<open>The directory after the first run, with the given permissions on the key.\<close>

definition generated_fs :: "(access \<Rightarrow> path \<Rightarrow> io_error option) \<Rightarrow> nat \<Rightarrow> fs" where
  "generated_fs ref mode =
     \<lparr>files = [config_in_dir \<mapsto> default_config_toml,
               template_key_path config_in_dir \<mapsto> replicate 32 (CHR 0x07)],
      modes = (\<lambda>_. 0)(template_key_path config_in_dir := mode), refused = ref\<rparr>"

lemma first_run:
  assumes "\<And>p. ref WriteFile p = None"
  shows "generate_fresh (empty_fs\<lparr>refused := ref\<rparr>) =
    (case ref SetPermissions (template_key_path config_in_dir) of
       None \<Rightarrow> (Inr (replicate 32 7), generated_fs ref 384,
         [''Wrote template config '' @ single_quoted (path_display config_in_dir) @ ''.'',
          ''Wrote new private key '' @ single_quoted (path_display (template_key_path config_in_dir)) @ ''.''])
     | Some e \<Rightarrow> (Inl (Context (''restricting permissions on '' @
            single_quoted (path_display (template_key_path config_in_dir))) (Io e)), generated_fs ref 420,
         [''Wrote template config '' @ single_quoted (path_display config_in_dir) @ ''.'']))"
proof -
  have ne: "comps config_in_dir \<noteq> []" by (simp add: config_in_dir_def)
  have key: "map (\<lambda>b. char_of (unat b)) (replicate 32 (7 :: u8)) = replicate 32 (CHR 0x07)"
    by code_simp
  have "ensure_config mac sorted_list_of_set only_template (empty_fs\<lparr>refused := ref\<rparr>) config_in_dir =
      (Inr (template_key_path config_in_dir),
       empty_fs\<lparr>refused := ref, files := [config_in_dir \<mapsto> default_config_toml]\<rparr>,
       [''Wrote template config '' @ single_quoted (path_display config_in_dir) @ ''.''])"
    using assms ne template_key_path_eq [OF ne]
    by (simp add: ensure_config_def path_exists_def empty_fs_def write_file_def Let_def)
  then show ?thesis
    using assms not_template_key_path key
    by (simp add: generate_def ensure_key_def path_exists_def empty_fs_def raw_key_files_def
        set_permissions_def generated_fs_def split: option.split)
qed

section \<open>Properties\<close>

text \<open>(C27) Running \<^verbatim>\<open>generate\<close> again changes nothing: after a successful run, a second one with any
  fresh key returns the key of the first and leaves every file and permission as it is, whether the
  configuration and the key were created or found.\<close>

theorem generate_idempotent:
  assumes "key_files_contract kf" and "hash_order order" and "reads_template toml"
    and "\<forall>q. refused s ReadFile q = None" and "length fresh = 32"
    and "generate ks order toml kf fresh s p = (Inr k, s', out)"
  shows "\<exists>out'. generate ks order toml kf fresh' s' p = (Inr k, s', out')"
  using key_files_contract.generate_again [OF assms(1,6,2,3) _ assms(5)] assms(4) by blast

theorem generate_idempotent_witness:
  "\<exists>s' out out'. generate_fresh empty_fs = (Inr (replicate 32 7), s', out) \<and>
     generate mac sorted_list_of_set only_template raw_key_files (replicate 32 9) s' config_in_dir =
       (Inr (replicate 32 7), s', out')"
proof -
  have "empty_fs\<lparr>refused := \<lambda>_ _. None\<rparr> = empty_fs" by (simp add: empty_fs_def)
  then obtain s' out where run: "generate_fresh empty_fs = (Inr (replicate 32 7), s', out)"
    using first_run [of "\<lambda>_ _. None"] by simp
  have "\<forall>q. refused empty_fs ReadFile q = None" by (simp add: empty_fs_def)
  from generate_idempotent [OF raw_key.key_files_contract_axioms sorted_keys.hash_order_axioms
      reads_only_template this _ run, of "replicate 32 9"]
  show ?thesis using run by auto
qed




definition no_chmod :: "access \<Rightarrow> path \<Rightarrow> io_error option" where
  "no_chmod a p =
     (if a = SetPermissions then Some \<lparr>io_kind = K_PermissionDenied, raw_os_error = Some 1,
        io_message = ''Operation not permitted''\<rparr> else None)"


end
