(* ===== verification/Show.thy ===== *)
theory Show
  imports Generate
begin

text \<open>
  The \<^verbatim>\<open>show\<close> command (\<^verbatim>\<open>src/show.rs\<close>): the report of the node's public key, its VPN address and
  the configured peers, sorted by name.
\<close>

section \<open>Operations\<close>

definition peer_line :: "key_api \<Rightarrow> string \<times> public_key \<Rightarrow> string" where
  "peer_line ks p = ''peer '' @ fst p @ '': '' @ to_z32 ks (snd p)"

definition report ::
  "ipnet_api \<Rightarrow> key_api \<Rightarrow> (string set \<Rightarrow> string list) \<Rightarrow> 'd config \<Rightarrow> secret_key \<Rightarrow> string" where
  "report ipn ks order config secret_key =
     (let (own_net, _) = generate_signed_ipnet ipn ks (NetV6 (vpn_subnet (subnet config))) secret_key;
          ps = sort_key fst (entries order (peers config))
      in text_lines
           ([''public key:  '' @ to_z32 ks (public ks secret_key),
             ''VPN address: '' @ show_ip (net_addr own_net)] @ map (peer_line ks) ps))"

definition show_run ::
  "ipnet_api \<Rightarrow> key_api \<Rightarrow> (string set \<Rightarrow> string list) \<Rightarrow> (string \<Rightarrow> anyhow + 'd raw_config) \<Rightarrow>
   key_files \<Rightarrow> fs \<Rightarrow> path \<Rightarrow> anyhow + string" where
  "show_run ipn ks order toml kf s config_path =
     (case config_load ks order toml s config_path of
        Inl e \<Rightarrow> Inl e
      | Inr config \<Rightarrow>
          (case load_key_from_disk kf s (private_key_path config) of
             Inl e \<Rightarrow> Inl e
           | Inr secret_key \<Rightarrow> Inr (report ipn ks order config secret_key)))"

section \<open>Facts\<close>

text \<open>A list with distinct keys has one sorted arrangement.\<close>

lemma sort_key_unique:
  fixes xs ys :: "('k::linorder \<times> 'v) list"
  assumes "set xs = set ys" and "distinct (map fst xs)" and "distinct (map fst ys)"
  shows "sort_key fst xs = sort_key fst ys"
proof -
  have inj: "inj_on fst (set xs)" using assms(2) by (simp add: distinct_map)
  have d: "distinct xs" "distinct ys" using assms(2,3) by (simp_all add: distinct_map)
  show ?thesis
    by (rule map_sorted_distinct_set_unique [of fst]) (use assms inj d in \<open>simp_all add: distinct_map\<close>)
qed

lemma entries_sorted:
  assumes "hash_order order" and "finite (dom m)"
  shows "sort_key fst (entries order m) = map (\<lambda>n. (n, the (m n))) (sorted_list_of_set (dom m))"
proof -
  have "sort_key fst (entries order m) = sort_key fst (entries sorted_list_of_set m)"
  proof (rule sort_key_unique)
    show "set (entries order m) = set (entries sorted_list_of_set m)"
      using hash_order.order_keys [OF assms] assms(2) by (simp add: entries_def)
  qed (use hash_order.fst_entries [OF assms] sorted_keys.fst_entries [OF assms(2)] in simp_all)
  also have "\<dots> = entries sorted_list_of_set m"
    by (rule sort_key_id_if_sorted) (simp add: entries_def comp_def)
  finally show ?thesis by (simp add: entries_def)
qed

section \<open>Properties\<close>

text \<open>(C38) The report is a function of the configuration and the key: it does not depend on the order
  in which the hash map yields the peers, lists every configured peer on one line in ascending order
  of the names, and its address is the one whose signed network the node advertises.\<close>

theorem report_deterministic:
  assumes "hash_order order" and "finite (dom (peers config))"
  shows "report ipn ks order config sk = text_lines
    ([''public key:  '' @ to_z32 ks (public ks sk),
      ''VPN address: '' @ show_ip (net_addr (fst (generate_signed_ipnet ipn ks (NetV6 (vpn_subnet (subnet config))) sk)))] @
     map (\<lambda>n. peer_line ks (n, the (peers config n))) (sorted_list_of_set (dom (peers config))))"
  by (simp add: report_def entries_sorted [OF assms] comp_def split_beta)

definition two_peers :: "unit config" where
  "two_peers =
     \<lparr>subnet = 0, private_key_path = path_file ''k'', peers = [''bob'' \<mapsto> [1], ''alice'' \<mapsto> [2]],
      tun = \<lparr>tun_name = None, tun_description = DEFAULT_TUN_DESCRIPTION\<rparr>, discovery = (), dns = None\<rparr>"

theorem report_deterministic_witness:
  "report cidr mac (\<lambda>S. rev (sorted_list_of_set S)) two_peers [7] = report cidr mac sorted_list_of_set two_peers [7]"
proof -
  have fin: "finite (dom (peers two_peers))" by (simp add: two_peers_def)
  show ?thesis
    unfolding report_deterministic [OF reverse_keys.hash_order_axioms fin]
      report_deterministic [OF sorted_keys.hash_order_axioms fin] ..
qed

end
