(* ===== verification/Connection.thy ===== *)
theory Connection
  imports Crates
begin

text \<open>
  The router of accepted connections (\<^verbatim>\<open>src/connection.rs\<close>): a connection goes to the channel of
  the configured peer with the remote's key, and one from an unknown peer is closed. Channels are
  bounded queues of \<^verbatim>\<open>tokio\<close>: sending waits for room, and fails once the receiver is gone.
\<close>

section \<open>Channels\<close>

record 'a channel =
  ch_queue :: "'a list"
  ch_capacity :: nat
  ch_closed :: bool

text \<open>A send that has completed: accepted, or refused because the receiver is gone. While the queue
  is full and the receiver there, it has not completed.\<close>

definition channel_send :: "'a \<Rightarrow> 'a channel \<Rightarrow> (('a + unit) \<times> 'a channel) option" where
  "channel_send x ch =
     (if ch_closed ch then Some (Inl x, ch)
      else if length (ch_queue ch) < ch_capacity ch
      then Some (Inr (), ch\<lparr>ch_queue := ch_queue ch @ [x]\<rparr>)
      else None)"

section \<open>The router\<close>

text \<open>
  A connection is what the router sees of it: its number and the key of the remote. The router holds
  a sender per peer; the channels and the connections closed so far are the world around it, and the
  counters are those of the metrics.
\<close>

record conn =
  conn_no :: nat
  remote_id :: public_key

record incoming_router =
  by_peer :: "public_key \<rightharpoonup> nat"

record router_world =
  channels :: "nat \<Rightarrow> conn channel"
  conn_closed :: "(conn \<times> u32 \<times> string) list"
  submit_errors :: nat
  unknown_peer :: nat

definition router_new :: incoming_router where
  "router_new = \<lparr>by_peer = Map.empty\<rparr>"

definition register :: "public_key \<Rightarrow> nat \<Rightarrow> incoming_router \<Rightarrow> incoming_router" where
  "register key incoming self = self\<lparr>by_peer := (by_peer self)(key \<mapsto> incoming)\<rparr>"

definition dispatch_conn :: "incoming_router \<Rightarrow> conn \<Rightarrow> router_world \<Rightarrow> router_world option" where
  "dispatch_conn self c w =
     (case by_peer self (remote_id c) of
        Some sender \<Rightarrow>
          (case channel_send c (channels w sender) of
             None \<Rightarrow> None
           | Some (Inr _, ch) \<Rightarrow> Some (w\<lparr>channels := (channels w)(sender := ch)\<rparr>)
           | Some (Inl _, ch) \<Rightarrow>
               Some (w\<lparr>channels := (channels w)(sender := ch), submit_errors := submit_errors w + 1\<rparr>))
      | None \<Rightarrow>
          Some (w\<lparr>unknown_peer := unknown_peer w + 1,
                  conn_closed := conn_closed w @ [(c, 0, ''unknown peer'')]\<rparr>))"

text \<open>
  The loop over the accepted connections. Between two dispatches, and while a dispatch waits, the
  peers take connections from their channels or drop their receivers: an environment step.
\<close>

inductive env_step :: "router_world \<Rightarrow> router_world \<Rightarrow> bool" where
  peer_takes: "ch_queue (channels w i) = c # cs \<Longrightarrow>
    env_step w (w\<lparr>channels := (channels w)(i := (channels w i)\<lparr>ch_queue := cs\<rparr>)\<rparr>)"
| peer_leaves: "env_step w (w\<lparr>channels := (channels w)(i := (channels w i)\<lparr>ch_closed := True, ch_queue := []\<rparr>)\<rparr>)"

inductive router_run :: "incoming_router \<Rightarrow> conn list \<Rightarrow> router_world \<Rightarrow> conn list \<Rightarrow> router_world \<Rightarrow> bool"
  for self :: incoming_router where
  run_start: "router_run self cs w cs w"
| run_env: "router_run self cs w rest w' \<Longrightarrow> env_step w' w'' \<Longrightarrow> router_run self cs w rest w''"
| run_dispatch: "router_run self cs w (c # rest) w' \<Longrightarrow> dispatch_conn self c w' = Some w'' \<Longrightarrow>
    router_run self cs w rest w''"

section \<open>Facts\<close>

text \<open>No peer's channel holds a connection of another peer.\<close>

definition routed :: "incoming_router \<Rightarrow> router_world \<Rightarrow> bool" where
  "routed self w = (\<forall>i. \<forall>c \<in> set (ch_queue (channels w i)). by_peer self (remote_id c) = Some i)"

definition only_unknown_closed :: "incoming_router \<Rightarrow> router_world \<Rightarrow> bool" where
  "only_unknown_closed self w = (\<forall>(c, _) \<in> set (conn_closed w). by_peer self (remote_id c) = None)"

lemma channel_send_cases:
  assumes "channel_send c ch = Some r"
  obtains "r = (Inl c, ch)" "ch_closed ch" | "r = (Inr (), ch\<lparr>ch_queue := ch_queue ch @ [c]\<rparr>)" "\<not> ch_closed ch"
      "length (ch_queue ch) < ch_capacity ch"
  using assms by (auto simp: channel_send_def split: if_splits)

lemma dispatch_cases:
  assumes "dispatch_conn self c w = Some w'"
  obtains (forwarded) i where "by_peer self (remote_id c) = Some i" "\<not> ch_closed (channels w i)"
      "w' = w\<lparr>channels := (channels w)(i := (channels w i)\<lparr>ch_queue := ch_queue (channels w i) @ [c]\<rparr>)\<rparr>"
      "length (ch_queue (channels w i)) < ch_capacity (channels w i)"
    | (refused) i where "by_peer self (remote_id c) = Some i" "ch_closed (channels w i)"
      "w' = w\<lparr>submit_errors := submit_errors w + 1\<rparr>"
    | (unknown) "by_peer self (remote_id c) = None"
      "w' = w\<lparr>unknown_peer := unknown_peer w + 1, conn_closed := conn_closed w @ [(c, 0, ''unknown peer'')]\<rparr>"
proof (cases "by_peer self (remote_id c)")
  case None
  then show ?thesis using assms by (intro unknown) (simp_all add: dispatch_conn_def)
next
  case (Some i)
  with assms obtain r where r: "channel_send c (channels w i) = Some r"
    by (cases "channel_send c (channels w i)") (simp_all add: dispatch_conn_def)
  then show ?thesis
  proof (cases rule: channel_send_cases)
    case 1
    then show ?thesis using Some r assms by (intro refused) (simp_all add: dispatch_conn_def)
  next
    case 2
    then show ?thesis using Some r assms by (intro forwarded) (simp_all add: dispatch_conn_def)
  qed
qed

lemma dispatch_routed:
  assumes "dispatch_conn self c w = Some w'"
  shows "(routed self w \<longrightarrow> routed self w') \<and> (only_unknown_closed self w \<longrightarrow> only_unknown_closed self w')"
  using assms by (cases rule: dispatch_cases) (auto simp: routed_def only_unknown_closed_def)

lemma env_routed:
  assumes "env_step w w'"
  shows "(routed self w \<longrightarrow> routed self w') \<and> (only_unknown_closed self w \<longrightarrow> only_unknown_closed self w')"
  using assms by cases (auto simp: routed_def only_unknown_closed_def)

lemma router_run_routed:
  assumes "router_run self cs w rest w'" and "routed self w" and "only_unknown_closed self w"
  shows "routed self w' \<and> only_unknown_closed self w'"
  using assms
proof induction
  case (run_env cs w0 rest w1 w2)
  then show ?case using env_routed [of w1 w2 self] by blast
next
  case (run_dispatch cs w0 c rest w1 w2)
  then show ?case using dispatch_routed [of self c w1 w2] by blast
qed simp

text \<open>A dispatch waits only for a full channel, and not once the channel has room again.\<close>

lemma dispatch_blocks_iff:
  "dispatch_conn self c w = None \<longleftrightarrow>
     (\<exists>i. by_peer self (remote_id c) = Some i \<and> \<not> ch_closed (channels w i) \<and>
       ch_capacity (channels w i) \<le> length (ch_queue (channels w i)))"
  by (auto simp: dispatch_conn_def channel_send_def split: option.splits)

section \<open>Properties\<close>

definition router_start :: "nat \<Rightarrow> router_world" where
  "router_start cap =
     \<lparr>channels = (\<lambda>_. \<lparr>ch_queue = [], ch_capacity = cap, ch_closed = False\<rparr>), conn_closed = [],
      submit_errors = 0, unknown_peer = 0\<rparr>"

text \<open>(C24) A connection only ever reaches its own peer: at any moment of the router's run, every queued
  connection sits in the channel registered for the key of its remote, and every connection the
  router has closed came from a peer that is not registered.\<close>

theorem router_delivers_to_owner:
  assumes "router_run self cs (router_start cap) rest w"
  shows "(\<forall>i. \<forall>c \<in> set (ch_queue (channels w i)). by_peer self (remote_id c) = Some i) \<and>
    (\<forall>(c, r) \<in> set (conn_closed w). by_peer self (remote_id c) = None)"
  using router_run_routed [OF assms]
  by (auto simp: routed_def only_unknown_closed_def router_start_def)

definition alice_and_stranger :: "conn list" where
  "alice_and_stranger = [\<lparr>conn_no = 0, remote_id = [1]\<rparr>, \<lparr>conn_no = 1, remote_id = [9]\<rparr>]"

theorem router_delivers_to_owner_witness:
  "\<exists>w. router_run (register [1] 5 router_new) alice_and_stranger (router_start 4) [] w \<and>
     ch_queue (channels w 5) = [\<lparr>conn_no = 0, remote_id = [1]\<rparr>] \<and>
     by_peer (register [1] 5 router_new) [1] = Some 5 \<and>
     conn_closed w = [(\<lparr>conn_no = 1, remote_id = [9]\<rparr>, 0, ''unknown peer'')]"
proof -
  let ?r = "register [1] 5 router_new"
  obtain w1 where w1: "dispatch_conn ?r \<lparr>conn_no = 0, remote_id = [1]\<rparr> (router_start 4) = Some w1"
    "ch_queue (channels w1 5) = [\<lparr>conn_no = 0, remote_id = [1]\<rparr>]" "conn_closed w1 = []"
    by (simp add: dispatch_conn_def register_def router_new_def router_start_def channel_send_def)
  obtain w2 where w2: "dispatch_conn ?r \<lparr>conn_no = 1, remote_id = [9]\<rparr> w1 = Some w2"
    "channels w2 = channels w1" "conn_closed w2 = [(\<lparr>conn_no = 1, remote_id = [9]\<rparr>, 0, ''unknown peer'')]"
    using w1 by (simp add: dispatch_conn_def register_def router_new_def)
  have run: "router_run ?r alice_and_stranger (router_start 4) [] w2"
    unfolding alice_and_stranger_def
    by (rule run_dispatch [OF run_dispatch [OF run_start w1(1)] w2(1)])
  have "by_peer ?r [1] = Some 5"
    using router_delivers_to_owner [OF run, THEN conjunct1, THEN spec, of 5] w1(2) w2(2) by simp
  then show ?thesis
    using run w1(2) w2(2,3) by (auto intro!: exI [of _ w2])
qed

end
