(* ===== verification/Peer.thy ===== *)
theory Peer
  imports Packet Ecn Validate_Addr
begin

text \<open>
  A peer (\<^verbatim>\<open>src/peer.rs\<close>): sending packets over its connection, the handshake in which the two
  sides advertise their addresses to each other, and receiving packets. The connection of
  \<^verbatim>\<open>iroh\<close> is an argument: what it answers at the moment of a call, and the streams that are opened
  and accepted on it.
\<close>

section \<open>Configuration\<close>

text \<open>A duration is a number of seconds.\<close>

record common_peer_config =
  allowed_networks :: "ip_net list"
  handshake_timeout :: nat
  common_icmp_gateway :: icmp_gateway

definition common_peer_config_new :: "icmp_gateway \<Rightarrow> common_peer_config" where
  "common_peer_config_new gateway =
     \<lparr>allowed_networks = [NetV6 VPN_IPV6_DEFAULT_ALLOWED], handshake_timeout = 60,
      common_icmp_gateway = gateway\<rparr>"

text \<open>A network path of a connection, and what a connection answers when it is asked.\<close>

record conn_path =
  is_selected :: bool
  path_remote_addr :: string

record quic =
  quic_paths :: "conn_path list"
  max_datagram_size :: "nat option"
  datagram_send_buffer_space :: nat
  send_datagram :: "bytes \<Rightarrow> anyhow + unit"

text \<open>The configuration names the connection by the key of its remote.\<close>

record peer_config =
  common :: common_peer_config
  conn_remote_id :: public_key
  own_advertise :: advertise

definition remote_addr :: "quic \<Rightarrow> string option" where
  "remote_addr conn =
     (let paths = quic_paths conn
      in map_option path_remote_addr
           (case List.find is_selected paths of
              Some p \<Rightarrow> Some p
            | None \<Rightarrow> (case paths of [] \<Rightarrow> None | p # _ \<Rightarrow> Some p)))"

datatype routes_changed = RoutesChanged (changed_routes: "ip_addr list")

record 'f peer =
  peer_config :: peer_config
  max_send_buffer_space :: 'f

definition ECN_THRESHOLD :: "'f float_api \<Rightarrow> 'f" where
  "ECN_THRESHOLD fa = fl_half fa"

definition peer_new :: "'f float_api \<Rightarrow> quic \<Rightarrow> peer_config \<Rightarrow> 'f peer" where
  "peer_new fa conn cfg =
     \<lparr>peer_config = cfg, max_send_buffer_space = fl_of_nat fa (datagram_send_buffer_space conn)\<rparr>"

definition public_key :: "'f peer \<Rightarrow> public_key" where
  "public_key self = conn_remote_id (peer_config self)"

section \<open>Sending packets\<close>

text \<open>Writing the filled part of a buffer.\<close>

definition buffer_deref_mut :: "bytes \<Rightarrow> pooled_buffer \<Rightarrow> pooled_buffer" where
  "buffer_deref_mut bs self = self\<lparr>buffer := bs @ drop (filled_len self) (buffer self)\<rparr>"

text \<open>
  What a call of \<^verbatim>\<open>send_packet\<close> does: its result, the slice it passed to the connection, if any,
  and the buffer it dropped, which goes back to its pool, if any.
\<close>

record send_effect =
  se_result :: "anyhow + tx_packet option"
  se_handed :: "pooled_slice option"
  se_released :: "pooled_buffer option"

text \<open>A \<^verbatim>\<open>BytesMut\<close> grows up to the largest length there is.\<close>

definition bytes_mut_room :: nat where
  "bytes_mut_room = 2 ^ 64 - 1"

definition too_big_reply :: "etherparse \<Rightarrow> icmp_gateway \<Rightarrow> nat \<Rightarrow> nat \<Rightarrow> rx_packet \<Rightarrow> tx_packet option" where
  "too_big_reply ep gateway now mtu packet =
     (let mtu16 = (of_nat (min mtu 65535) :: u16)
      in case generate_reply ep gateway bytes_mut_room (rx_deref packet) (packet_too_big mtu16) of
           (Inr addr, buf) \<Rightarrow> Some (tx_new now buf)
         | (Inl err, buf) \<Rightarrow> None)"

definition send_packet ::
  "etherparse \<Rightarrow> 'f float_api \<Rightarrow> quic \<Rightarrow> 'f \<Rightarrow> nat \<Rightarrow> 'f peer \<Rightarrow> rx_packet \<Rightarrow> send_effect outcome" where
  "send_packet ep fa conn rng now self packet =
     (if (case max_datagram_size conn of Some mtu \<Rightarrow> mtu < length (rx_deref packet) | None \<Rightarrow> False)
      then Done \<lparr>se_result = Inr (too_big_reply ep (common_icmp_gateway (common (peer_config self))) now
                                   (the (max_datagram_size conn)) packet),
                 se_handed = None, se_released = Some (to_buffer (rx_data packet))\<rparr>
      else
        let buf = to_buffer (rx_data packet);
            fullness = fl_minus fa (fl_one fa)
              (fl_div fa (fl_of_nat fa (datagram_send_buffer_space conn)) (max_send_buffer_space self));
            send = (\<lambda>buf.
              let sl = slice_from buf
              in \<lparr>se_result =
                    (case send_datagram conn (slice_deref sl) of Inl e \<Rightarrow> Inl e | Inr _ \<Rightarrow> Inr None),
                  se_handed = Some sl, se_released = None\<rparr>)
        in if \<not> linear_aqm fa rng (ECN_THRESHOLD fa) fullness
           then bind_outcome (process_packet_congestion ep (buffer_deref buf)) (\<lambda>(action, bs).
             let buf = buffer_deref_mut bs buf
             in if action = Drop
                then Done \<lparr>se_result = Inr None, se_handed = None, se_released = Some buf\<rparr>
                else Done (send buf))
           else Done (send buf))"

section \<open>The handshake\<close>

text \<open>
  The answer to a request: the result, and the closing of the connection, if any, by its code and
  reason.
\<close>

definition handle_control_request ::
  "status_api \<Rightarrow> ipnet_api \<Rightarrow> key_api \<Rightarrow> 'f peer \<Rightarrow> control_request \<Rightarrow>
   (thin_status + routes_changed option) \<times> (u32 \<times> string) option" where
  "handle_control_request st ipn ks self request =
     (case command request of
        Some (Advertise adv) \<Rightarrow>
          (let (addrs, addr_errors) =
             validate_addresses ipn ks (allowed_networks (common (peer_config self))) adv (public_key self);
             new_routes = map net_addr addrs
           in if new_routes = []
              then let status = \<lparr>code_raw = code_value st FailedPrecondition,
                     message = ''No available routes to the peer; '' @ debug_errors st addr_errors\<rparr>
                   in (Inl status, Some (close_connection status))
              else (Inr (Some (RoutesChanged new_routes)), None))
      | None \<Rightarrow> (Inr None, None))"

text \<open>The streams of a connection: what opening or accepting one yields.\<close>

type_synonym bi_stream = "anyhow + (send_result \<times> read_event list)"

definition send_advertise ::
  "status_api \<Rightarrow> codec \<Rightarrow> 'f peer \<Rightarrow> bi_stream \<Rightarrow> (anyhow + unit) option" where
  "send_advertise st cd self opened =
     (let cmd = Advertise (own_advertise (peer_config self));
          control = \<lparr>command = Some cmd\<rparr>
      in map_option
           (\<lambda>r. case r of
              Inl e \<Rightarrow> Inl e
            | Inr resp \<Rightarrow> (case control_to_status resp of Inl s \<Rightarrow> Inl (Thin s) | Inr u \<Rightarrow> Inr u))
           (write_control st cd opened control))"

text \<open>The request that arrives on a stream, if one arrives whole.\<close>

definition arrived :: "status_api \<Rightarrow> codec \<Rightarrow> bi_stream \<Rightarrow> control_request option" where
  "arrived st cd stream =
     (case stream of
        Inl _ \<Rightarrow> None
      | Inr (send, recv) \<Rightarrow>
          (case read_control_stream st (decode_request cd) recv of
             Some (Inr request, _) \<Rightarrow> Some request
           | _ \<Rightarrow> None))"

definition recv_control ::
  "status_api \<Rightarrow> codec \<Rightarrow> ipnet_api \<Rightarrow> key_api \<Rightarrow> 'f peer \<Rightarrow> bi_stream \<Rightarrow>
   ((anyhow + routes_changed option) \<times> (u32 \<times> string) option) option" where
  "recv_control st cd ipn ks self accept =
     map_option
       (\<lambda>(r, _). (case r of Inl s \<Rightarrow> Inl (Thin s) | Inr routes \<Rightarrow> Inr routes,
                  Option.bind (arrived st cd accept)
                    (\<lambda>request. snd (handle_control_request st ipn ks self request))))
       (read_control st cd accept (\<lambda>request. fst (handle_control_request st ipn ks self request)))"

text \<open>
  The handshake joins the sending of the own advertisement and the receipt of the peer's. It
  completes when both have, and fails when the timer fires first. The second component is the
  closing of the connection.
\<close>

definition deadline_error :: "nat \<Rightarrow> anyhow" where
  "deadline_error t =
     Context (''Failed to finish handshake within the deadline '' @ show_nat t @ ''s'') (Foreign ''Elapsed'')"

definition handshake ::
  "status_api \<Rightarrow> codec \<Rightarrow> ipnet_api \<Rightarrow> key_api \<Rightarrow> 'f peer \<Rightarrow> anyhow + unit \<Rightarrow> bool \<Rightarrow> bi_stream \<Rightarrow> bi_stream \<Rightarrow>
   (anyhow + ('f peer \<times> routes_changed)) \<times> (u32 \<times> string) option" where
  "handshake st cd ipn ks self direct in_time opened accept =
     (case direct of
        Inl e \<Rightarrow> (Inl e, None)
      | Inr _ \<Rightarrow>
          (let send = send_advertise st cd self opened;
               receive = recv_control st cd ipn ks self accept;
               close = Option.bind receive snd
           in case (send, receive, in_time) of
                (Some (Inl e), Some _, True) \<Rightarrow> (Inl e, close)
              | (Some (Inr _), Some (Inl e, _), True) \<Rightarrow> (Inl e, close)
              | (Some (Inr _), Some (Inr (Some routes), _), True) \<Rightarrow> (Inr (self, routes), close)
              | (Some (Inr _), Some (Inr None, _), True) \<Rightarrow>
                  (Inl (Message ''Handshake returned no routes''), close)
              | _ \<Rightarrow> (Inl (deadline_error (handshake_timeout (common (peer_config self)))), close)))"

section \<open>Receiving\<close>

text \<open>
  One round of the receive loop: the time, what reading a datagram returned, and whether the
  channel to the TUN side is closed by then. The packets forwarded, and the error that ended the
  loop; without one it still runs.
\<close>

fun recv_loop :: "(nat \<times> (anyhow + bytes) \<times> bool) list \<Rightarrow> tx_packet list \<times> anyhow option" where
  "recv_loop [] = ([], None)"
| "recv_loop ((now, datagram, gone) # rounds) =
     (case datagram of
        Inl e \<Rightarrow> ([], Some e)
      | Inr bs \<Rightarrow>
          if gone then ([], Some (Foreign ''SendError''))
          else let (pkts, e) = recv_loop rounds in (tx_new now bs # pkts, e))"

text \<open>Control messages on the given streams, until one changes the routes.\<close>

fun recv_control_loop ::
  "status_api \<Rightarrow> codec \<Rightarrow> ipnet_api \<Rightarrow> key_api \<Rightarrow> 'f peer \<Rightarrow> bi_stream list \<Rightarrow>
   (anyhow + routes_changed) option" where
  "recv_control_loop st cd ipn ks self [] = None"
| "recv_control_loop st cd ipn ks self (stream # streams) =
     (case recv_control st cd ipn ks self stream of
        None \<Rightarrow> None
      | Some (Inl e, _) \<Rightarrow> Some (Inl e)
      | Some (Inr (Some routes), _) \<Rightarrow> Some (Inr routes)
      | Some (Inr None, _) \<Rightarrow> recv_control_loop st cd ipn ks self streams)"

section \<open>Facts about sending\<close>

lemma rx_deref_buffer: "rx_deref packet = buffer_deref (to_buffer (rx_data packet))"
  by (simp add: rx_deref_def slice_deref_def to_buffer_def)

lemma deref_mut_deref:
  "length bs = length (buffer_deref b) \<Longrightarrow> buffer_deref (buffer_deref_mut bs b) = bs"
  by (simp add: buffer_deref_def buffer_deref_mut_def min_def split: if_splits)

lemma deref_slice_from: "slice_deref (slice_from b) = buffer_deref b"
  by (simp add: slice_deref_def slice_from_def)

text \<open>The branches of sending a packet.\<close>

lemma send_packet_cases:
  assumes "etherparse_contract ep"
  obtains (too_big) mtu where "max_datagram_size conn = Some mtu" "mtu < length (rx_deref packet)"
      "send_packet ep fa conn rng now self packet =
         Done \<lparr>se_result = Inr (too_big_reply ep (common_icmp_gateway (common (peer_config self))) now mtu packet),
               se_handed = None, se_released = Some (to_buffer (rx_data packet))\<rparr>"
    | (dropped) b where "\<And>mtu. max_datagram_size conn = Some mtu \<Longrightarrow> length (rx_deref packet) \<le> mtu"
      "send_packet ep fa conn rng now self packet =
         Done \<lparr>se_result = Inr None, se_handed = None, se_released = Some b\<rparr>"
      "buffer_deref b = rx_deref packet \<or> process_packet_congestion ep (rx_deref packet) = Done (Drop, buffer_deref b)"
    | (handed) b where "\<And>mtu. max_datagram_size conn = Some mtu \<Longrightarrow> length (rx_deref packet) \<le> mtu"
      "send_packet ep fa conn rng now self packet =
         Done \<lparr>se_result = (case send_datagram conn (buffer_deref b) of Inl e \<Rightarrow> Inl e | Inr _ \<Rightarrow> Inr None),
               se_handed = Some (slice_from b), se_released = None\<rparr>"
      "buffer_deref b = rx_deref packet \<or> process_packet_congestion ep (rx_deref packet) = Done (Forward, buffer_deref b)"
proof (cases "case max_datagram_size conn of Some mtu \<Rightarrow> mtu < length (rx_deref packet) | None \<Rightarrow> False")
  case True
  then obtain mtu where "max_datagram_size conn = Some mtu" "mtu < length (rx_deref packet)"
    by (auto split: option.splits)
  then show ?thesis by (intro too_big) (simp_all add: send_packet_def)
next
  case fits: False
  then have le: "length (rx_deref packet) \<le> mtu" if "max_datagram_size conn = Some mtu" for mtu
    using that by simp
  let ?b = "to_buffer (rx_data packet)"
  let ?ok = "linear_aqm fa rng (ECN_THRESHOLD fa) (fl_minus fa (fl_one fa)
    (fl_div fa (fl_of_nat fa (datagram_send_buffer_space conn)) (max_send_buffer_space self)))"
  show ?thesis
  proof (cases ?ok)
    case True
    then show ?thesis
      using fits by (intro handed [of ?b]) (simp_all add: le send_packet_def Let_def deref_slice_from rx_deref_buffer)
  next
    case False
    obtain act bs where p: "process_packet_congestion ep (buffer_deref ?b) = Done (act, bs)"
      "length bs = length (buffer_deref ?b)"
      using congestion_total [OF assms] by blast
    note d = deref_mut_deref [OF p(2)]
    show ?thesis
    proof (cases act)
      case Drop
      then show ?thesis
        using fits False p d by (intro dropped [of "buffer_deref_mut bs ?b"])
          (simp_all add: le send_packet_def Let_def rx_deref_buffer)
    next
      case Forward
      then show ?thesis
        using fits False p d by (intro handed [of "buffer_deref_mut bs ?b"])
          (simp_all add: le send_packet_def Let_def deref_slice_from rx_deref_buffer)
    qed
  qed
qed

section \<open>Facts about the handshake\<close>

text \<open>The advertisement of a node: the address it derives in its subnet, signed.\<close>

definition node_advertise :: "ipnet_api \<Rightarrow> key_api \<Rightarrow> u16 \<Rightarrow> secret_key \<Rightarrow> advertise" where
  "node_advertise ipn ks s sk =
     \<lparr>own_addresses = [host_entry ipn (generate_signed_ipnet ipn ks (NetV6 (vpn_subnet s)) sk)]\<rparr>"

definition node_addr :: "ipnet_api \<Rightarrow> key_api \<Rightarrow> u16 \<Rightarrow> secret_key \<Rightarrow> ip_addr" where
  "node_addr ipn ks s sk = net_addr (fst (generate_signed_ipnet ipn ks (NetV6 (vpn_subnet s)) sk))"

definition advertise_request :: "advertise \<Rightarrow> control_request" where
  "advertise_request adv = \<lparr>command = Some (Advertise adv)\<rparr>"

text \<open>The peer object that a node with the default configuration keeps for a remote.\<close>

definition default_peer :: "icmp_gateway \<Rightarrow> public_key \<Rightarrow> advertise \<Rightarrow> 'f \<Rightarrow> 'f peer" where
  "default_peer g remote adv space =
     \<lparr>peer_config = \<lparr>common = common_peer_config_new g, conn_remote_id = remote, own_advertise = adv\<rparr>,
      max_send_buffer_space = space\<rparr>"

lemma vpn_subnet_wf: "wf_net (NetV6 (vpn_subnet s))" "derivable (NetV6 (vpn_subnet s))"
  by (simp_all add: vpn_subnet_def Let_def)

lemma default_allowed_wf: "wf_net (NetV6 VPN_IPV6_DEFAULT_ALLOWED)"
  by (simp add: VPN_IPV6_DEFAULT_ALLOWED_def VPN_IPV6_PREFIX_def)

lemma node_advertise_valid:
  assumes "ipnet_contract ipn" and "key_contract ks"
  shows "validate_addresses ipn ks [NetV6 VPN_IPV6_DEFAULT_ALLOWED] (node_advertise ipn ks s sk) (public ks sk) =
    (if s \<le> MAX_SUBNET then [fst (generate_signed_ipnet ipn ks (NetV6 (vpn_subnet s)) sk)] else [], [])"
proof (cases "s \<le> MAX_SUBNET")
  case True
  then show ?thesis
    using own_addresses_accepted [OF assms, of "[NetV6 (vpn_subnet s)]" "[NetV6 VPN_IPV6_DEFAULT_ALLOWED]" sk]
      vpn_subnet_wf [of s] default_allowed_wf vpn_subnet_allowed_iff [OF assms(1)]
    by (simp add: node_advertise_def)
next
  case False
  obtain own sg where g: "generate_signed_ipnet ipn ks (NetV6 (vpn_subnet s)) sk = (own, sg)" by fastforce
  note v = generated_verifies [OF assms vpn_subnet_wf g]
  have "net_contains ipn own (NetV6 (vpn_subnet s))"
    by (rule ipnet_contract.contains_same_trunc [OF assms(1) v(2) vpn_subnet_wf(1) v(3) [symmetric]])
  then have "\<not> net_contains ipn (NetV6 VPN_IPV6_DEFAULT_ALLOWED) own"
    using ipnet_contract.contains_trans [OF assms(1) default_allowed_wf v(2) vpn_subnet_wf(1)]
      vpn_subnet_allowed_iff [OF assms(1)] False by blast
  then show ?thesis
    using validate_own_entry [OF assms vpn_subnet_wf, of s sk] False
    by (simp add: node_advertise_def validate_addresses_eq accepted_def rejected_def List.map_filter_simps
        is_subnet_of_any_def g)
qed

lemma handle_node_advertise:
  assumes "ipnet_contract ipn" and "key_contract ks"
  shows "handle_control_request st ipn ks (default_peer g (public ks sk) adv space) (advertise_request (node_advertise ipn ks s sk)) =
    (if s \<le> MAX_SUBNET then (Inr (Some (RoutesChanged [node_addr ipn ks s sk])), None)
     else let status = \<lparr>code_raw = code_value st FailedPrecondition,
                message = ''No available routes to the peer; '' @ debug_errors st []\<rparr>
          in (Inl status, Some (close_connection status)))"
  using node_advertise_valid [OF assms(1,2), of s sk]
  by (simp add: handle_control_request_def advertise_request_def default_peer_def public_key_def
      common_peer_config_new_def node_addr_def Let_def)

text \<open>A message that a codec encodes into few enough bytes, cut into chunks in some way.\<close>

definition carries :: "(anyhow + bytes) \<Rightarrow> bytes list list \<Rightarrow> bool" where
  "carries encoded batches \<longleftrightarrow>
     encoded = Inr (concat (concat batches)) \<and> length (concat (concat batches)) < MAX_MESSAGE_SIZE"

context codec_contract
begin

lemma arrived_delivers:
  assumes "carries (encode_request cd req) batches"
  shows "arrived st cd (Inr (sent, delivers batches)) = Some req"
  using read_control_stream_delivers [of batches "concat (concat batches)" st "decode_request cd"] assms
    request_inverse [of req "concat (concat batches)"]
  by (simp add: arrived_def carries_def)

lemma recv_control_delivers:
  assumes "carries (encode_request cd req) batches"
    and "handle_control_request st ipn ks self req = (res, cl)"
  shows "recv_control st cd ipn ks self (Inr (sent, delivers batches)) =
    Some (case res of Inl s \<Rightarrow> Inl (Thin s) | Inr routes \<Rightarrow> Inr routes, cl)"
  using read_control_delivers [of req "concat (concat batches)" batches st
      "\<lambda>request. fst (handle_control_request st ipn ks self request)"]
    arrived_delivers [OF assms(1)] assms
  by (simp add: recv_control_def carries_def)

lemma send_advertise_delivers:
  assumes "carries (encode_response cd p) batches"
  shows "send_advertise st cd self (Inr (sent, delivers batches)) =
    Some (case control_to_status p of Inl s \<Rightarrow> Inl (Thin s) | Inr u \<Rightarrow> Inr u)"
  using write_control_delivers [of p "concat (concat batches)" batches] assms
  by (simp add: send_advertise_def carries_def Let_def)

end

text \<open>
  What a handshake comes to, when both streams carry whole messages: the request of the remote and
  its response to the own one.
\<close>

lemma handshake_delivers:
  assumes "codec_contract cd" and "carries (encode_response cd p) resp"
    and "carries (encode_request cd req) batches"
    and "handle_control_request st ipn ks self req = (res, cl)"
  shows "handshake st cd ipn ks self (Inr ()) True (Inr (sent, delivers resp)) (Inr (sent, delivers batches)) =
    (case control_to_status p of
       Inl s \<Rightarrow> Inl (Thin s)
     | Inr _ \<Rightarrow>
         (case res of
            Inl s \<Rightarrow> Inl (Thin s)
          | Inr (Some routes) \<Rightarrow> Inr (self, routes)
          | Inr None \<Rightarrow> Inl (Message ''Handshake returned no routes'')), cl)"
  using codec_contract.send_advertise_delivers [OF assms(1,2), of st self]
    codec_contract.recv_control_delivers [OF assms(1,3,4)]
  by (simp add: handshake_def Let_def split: sum.splits option.splits)

section \<open>Properties\<close>


text \<open>The encodings of the advertisement of a node and of a success are short enough.\<close>

lemma wire_default: "carries (encode_response wire default_response) [[put_response default_response]]"
  by (simp add: carries_def wire_def put_response_def default_response_def MAX_MESSAGE_SIZE_def)

lemma length_put_list: "length (put_list f xs) = 1 + length xs + sum_list (map (\<lambda>x. length (f x)) xs)"
  by (induction xs) simp_all

lemma wire_advertise:
  assumes "length (peer_network h) < 400" and "length (peer_network_signature h) < 400"
  shows "carries (encode_request wire (advertise_request \<lparr>own_addresses = [h]\<rparr>))
    [[put_request (advertise_request \<lparr>own_addresses = [h]\<rparr>)]]"
  using assms
  by (simp add: carries_def wire_def advertise_request_def put_request_def put_host_def put_string_def
      MAX_MESSAGE_SIZE_def length_put_list sum_list_triv)

lemma wire_node_advertise:
  "carries (encode_request wire (advertise_request (node_advertise cidr mac s sk)))
    [[put_request (advertise_request (node_advertise cidr mac s sk))]]"
proof -
  obtain b q sg where g: "generate_signed_ipnet cidr mac (NetV6 (vpn_subnet s)) sk = (NetV6 (Ipv6Net b q), sg)"
    by (simp add: generate_signed_ipnet_def generate_signed_ip_with_signature_def Let_def)
  then have "sg = sign mac sk (serialize_network (net_trunc cidr (NetV6 (vpn_subnet s))))"
    by (simp add: generate_signed_ipnet_def Let_def)
  then have "length (sig_bytes sg) = 64" using mac.sign_len by simp
  then show ?thesis
    unfolding node_advertise_def g
    by (intro wire_advertise) (simp_all add: host_entry_def cidr_def)
qed



text \<open>A remote whose subnet is out of the default range.\<close>

lemma far_remote_rejected:
  "handle_control_request grpc cidr mac (default_peer g (public mac [2]) adv space)
     (advertise_request (node_advertise cidr mac 0x8000 [2])) =
   (let status = \<lparr>code_raw = code_value grpc FailedPrecondition,
      message = ''No available routes to the peer; '' @ debug_errors grpc []\<rparr>
    in (Inl status, Some (close_connection status)))"
  unfolding handle_node_advertise [OF cidr.ipnet_contract_axioms mac.key_contract_axioms]
  by (simp add: MAX_SUBNET_value)


text \<open>(C12) Sending a packet is safe for any packet and any state of the connection: the call never
  panics; it passes on at most one datagram, which is the packet or its ECN-marked form, of the same
  length and never longer than the connection takes; otherwise, and only then, it releases the
  buffer of the packet; and it fails only if the connection refused the datagram.\<close>

theorem send_packet_safe:
  assumes "etherparse_contract ep"
  shows "\<exists>eff. send_packet ep fa conn rng now self packet = Done eff \<and>
    (se_handed eff = None \<longleftrightarrow> se_released eff \<noteq> None) \<and>
    (\<forall>sl. se_handed eff = Some sl \<longrightarrow>
       length (slice_deref sl) = length (rx_deref packet) \<and>
       (\<forall>mtu. max_datagram_size conn = Some mtu \<longrightarrow> length (slice_deref sl) \<le> mtu) \<and>
       (slice_deref sl = rx_deref packet \<or>
        process_packet_congestion ep (rx_deref packet) = Done (Forward, slice_deref sl))) \<and>
    (\<forall>e. se_result eff = Inl e \<longrightarrow> (\<exists>sl. se_handed eff = Some sl \<and> send_datagram conn (slice_deref sl) = Inl e))"
  using assms
proof (cases rule: send_packet_cases [where conn = conn and packet = packet and fa = fa and rng = rng
      and now = now and self = self])
  case (handed b)
  have "length (buffer_deref b) = length (rx_deref packet)"
    using handed(3) congestion_total [OF assms, of "rx_deref packet"] by auto
  with handed show ?thesis
    by (auto simp: deref_slice_from split: sum.splits)
qed simp_all

definition quic_1200 :: quic where
  "quic_1200 = \<lparr>quic_paths = [], max_datagram_size = Some 1200, datagram_send_buffer_space = 0,
     send_datagram = (\<lambda>_. Inr ())\<rparr>"

theorem send_packet_safe_witness:
  "\<exists>eff. send_packet rfc exact quic_1200 0 0
     (default_peer \<lparr>own_ipv4 = None, own_ipv6 = None\<rparr> [] \<lparr>own_addresses = []\<rparr> 100)
     (rx_new 0 (PooledSlice \<lparr>buffer = [0xde, 0xad, 0], filled_len = 2\<rparr>)) = Done eff \<and>
     (se_handed eff = None \<longleftrightarrow> se_released eff \<noteq> None)"
  by (rule ex_forward [OF send_packet_safe [OF rfc.etherparse_contract_axioms]]) (elim conjE, intro conjI)

end
