(* ===== verification/Session.thy ===== *)
theory Session
  imports Peer Relay_Correct Dns
begin

text \<open>
  The session of a peer (\<^verbatim>\<open>src/session.rs\<close>): for every connection that its link yields, the
  handshake, the registration of the negotiated routes in the relay and of the peer's name, and the
  receive loop; parking the routes when the connection drops, and withdrawing them when the link
  ends. All sessions share the relay, the names and the channel to the TUN device, so the sessions
  are a step relation over these. What the link and its connections deliver is arbitrary.
\<close>

section \<open>State\<close>

record session_config =
  session_name :: string
  session_common :: common_peer_config
  session_advertise :: advertise

text \<open>What the sessions share; the counters are the increments so far, with their labels.\<close>

record ('f, 'k) world =
  w_relay :: "('f peer, 'k) relay"
  w_names :: "peer_names option"
  w_counts :: "(string \<times> label list) list"
  w_tx :: "tx_packet list"

text \<open>A connection that the link yields, by everything that is read from it until it drops.\<close>

record link_conn =
  lc_quic :: quic
  lc_remote_id :: public_key
  lc_direct :: "anyhow + unit"
  lc_in_time :: bool
  lc_opened :: bi_stream
  lc_accepted :: bi_stream

section \<open>Operations\<close>

definition count_error ::
  "status_api \<Rightarrow> session_config \<Rightarrow> string \<Rightarrow> anyhow \<Rightarrow> ('f, 'k) world \<Rightarrow> ('f, 'k) world" where
  "count_error st self metric err w =
     w\<lparr>w_counts := w_counts w @
        [(metric, into_labels st (from_anyhow st err) @ [(''peer'', session_name self)])]\<rparr>"

definition park_routes :: "ip_addr list \<Rightarrow> ('f, 'k) world \<Rightarrow> ('f, 'k) world" where
  "park_routes routes w = (if routes \<noteq> [] then w\<lparr>w_relay := park routes (w_relay w)\<rparr> else w)"

definition withdraw_routes ::
  "'k routing \<Rightarrow> session_config \<Rightarrow> ip_addr list \<Rightarrow> ('f, 'k) world \<Rightarrow> (ip_addr list \<times> ('f, 'k) world) outcome" where
  "withdraw_routes rt self routes w =
     bind_outcome
       (if routes \<noteq> [] then bind_outcome (relay_remove rt routes (w_relay w)) (\<lambda>r. Done ([], r))
        else Done (routes, w_relay w))
       (\<lambda>(routes, r). Done (routes, w\<lparr>w_relay := r,
          w_names := map_option (names_remove (session_name self)) (w_names w)\<rparr>))"

text \<open>
  The first part of \<^verbatim>\<open>run_connection\<close>: the handshake and the registration. It yields the connected
  peer, or none when a step failed, and the routes that are registered then. \<open>adm\<close> restricts the
  address sets that are negotiated.
\<close>

definition conn_peer ::
  "'f float_api \<Rightarrow> session_config \<Rightarrow> link_conn \<Rightarrow> 'f peer" where
  "conn_peer fa self c =
     peer_new fa (lc_quic c)
       \<lparr>common = session_common self, conn_remote_id = lc_remote_id c,
        own_advertise = session_advertise self\<rparr>"

definition conn_handshake ::
  "status_api \<Rightarrow> codec \<Rightarrow> ipnet_api \<Rightarrow> key_api \<Rightarrow> 'f float_api \<Rightarrow> session_config \<Rightarrow> link_conn \<Rightarrow>
   anyhow + ('f peer \<times> routes_changed)" where
  "conn_handshake st cd ipn ks fa self c =
     fst (handshake st cd ipn ks (conn_peer fa self c) (lc_direct c) (lc_in_time c)
            (lc_opened c) (lc_accepted c))"

inductive connect ::
  "'k routing \<Rightarrow> status_api \<Rightarrow> (ip_addr list \<Rightarrow> bool) \<Rightarrow> session_config \<Rightarrow>
   anyhow + ('f peer \<times> routes_changed) \<Rightarrow> ip_addr list \<Rightarrow> ('f, 'k) world \<Rightarrow>
   ('f peer option \<times> ip_addr list \<times> ('f, 'k) world) outcome \<Rightarrow> bool"
  for rt :: "'k routing" and st :: status_api and adm :: "ip_addr list \<Rightarrow> bool" and self :: session_config where
  handshake_failed:
    "connect rt st adm self (Inl err) routes w
       (Done (None, routes, count_error st self ''p2p_vpn_peer_session_handshake_errors'' err w))"
| registration_failed: "adm (changed_routes changed) \<Longrightarrow>
    reconcile rt st (changed_routes changed) routes live (w_relay w) (Done (Inl err, r)) \<Longrightarrow>
    connect rt st adm self (Inr (live, changed)) routes w
      (Done (None, [], count_error st self ''p2p_vpn_peer_session_relay_insert_errors'' (Thin err)
         (w\<lparr>w_relay := r\<rparr>)))"
| registered: "adm (changed_routes changed) \<Longrightarrow>
    reconcile rt st (changed_routes changed) routes live (w_relay w) (Done (Inr (), r)) \<Longrightarrow>
    connect rt st adm self (Inr (live, changed)) routes w
      (Done (Some live, changed_routes changed,
         w\<lparr>w_relay := r,
           w_names := map_option (names_set (session_name self) (changed_routes changed)) (w_names w)\<rparr>))"
| registration_panicked: "adm (changed_routes changed) \<Longrightarrow>
    reconcile rt st (changed_routes changed) routes live (w_relay w) (Panic m) \<Longrightarrow>
    connect rt st adm self (Inr (live, changed)) routes w (Panic m)"

text \<open>The end of \<^verbatim>\<open>run_connection\<close>, when the receive loop has ended with an error.\<close>

definition disconnect ::
  "status_api \<Rightarrow> session_config \<Rightarrow> anyhow \<Rightarrow> ip_addr list \<Rightarrow> ('f, 'k) world \<Rightarrow> ('f, 'k) world" where
  "disconnect st self err routes w =
     park_routes routes (count_error st self ''p2p_vpn_peer_session_recv_loop_errors'' err w)"

section \<open>The loop\<close>

text \<open>A session waits for its link, receives from a connected peer, or has stopped.\<close>

datatype 'v phase = Waiting | Receiving 'v | Stopped

record 'v session =
  s_routes :: "ip_addr list"
  s_phase :: "'v phase"

definition session_new :: "'v session" where
  "session_new = \<lparr>s_routes = [], s_phase = Waiting\<rparr>"

inductive session_step ::
  "'k routing \<Rightarrow> status_api \<Rightarrow> (ip_addr list \<Rightarrow> bool) \<Rightarrow> (link_conn \<Rightarrow> anyhow + ('f peer \<times> routes_changed)) \<Rightarrow>
   session_config \<Rightarrow> 'f peer session \<times> ('f, 'k) world \<Rightarrow> ('f peer session \<times> ('f, 'k) world) outcome \<Rightarrow> bool"
  for rt :: "'k routing" and st :: status_api and adm :: "ip_addr list \<Rightarrow> bool"
    and hs :: "link_conn \<Rightarrow> anyhow + ('f peer \<times> routes_changed)" and self :: session_config where
  link_down: "s_phase s = Waiting \<Longrightarrow>
    session_step rt st adm hs self (s, w) (Done (s, park_routes (s_routes s) w))"
| link_ended: "s_phase s = Waiting \<Longrightarrow>
    withdraw_routes rt self (s_routes s)
      (w\<lparr>w_counts := w_counts w @ [(''p2p_vpn_peer_session_link_ended'', [(''peer'', session_name self)])]\<rparr>) =
        Done (routes, w') \<Longrightarrow>
    session_step rt st adm hs self (s, w) (Done (s\<lparr>s_routes := routes, s_phase := Stopped\<rparr>, w'))"
| link_up: "s_phase s = Waiting \<Longrightarrow>
    connect rt st adm self (hs c) (s_routes s) w (Done (live, routes, w')) \<Longrightarrow>
    session_step rt st adm hs self (s, w)
      (Done (s\<lparr>s_routes := routes, s_phase := case_option Waiting Receiving live\<rparr>, w'))"
| link_panicked: "s_phase s = Waiting \<Longrightarrow>
    connect rt st adm self (hs c) (s_routes s) w (Panic m) \<Longrightarrow>
    session_step rt st adm hs self (s, w) (Panic m)"
| packet_forwarded: "s_phase s = Receiving v \<Longrightarrow> recv_loop [rnd] = (packets, None) \<Longrightarrow>
    session_step rt st adm hs self (s, w) (Done (s, w\<lparr>w_tx := w_tx w @ packets\<rparr>))"
| receive_ended: "s_phase s = Receiving v \<Longrightarrow> recv_loop [rnd] = (packets, Some err) \<Longrightarrow>
    session_step rt st adm hs self (s, w)
      (Done (s\<lparr>s_phase := Waiting\<rparr>, disconnect st self err (s_routes s) w))"

text \<open>All sessions, each with its configuration and its handshake, over one world.\<close>

inductive sessions_reach ::
  "'k routing \<Rightarrow> status_api \<Rightarrow> ('i \<Rightarrow> ip_addr set) \<Rightarrow> ('i \<Rightarrow> link_conn \<Rightarrow> anyhow + ('f peer \<times> routes_changed)) \<Rightarrow>
   ('i \<Rightarrow> session_config) \<Rightarrow> 'k \<Rightarrow> peer_names option \<Rightarrow> ('i \<Rightarrow> 'f peer session) \<Rightarrow> ('f, 'k) world \<Rightarrow> bool"
  for rt :: "'k routing" and st :: status_api and own :: "'i \<Rightarrow> ip_addr set"
    and hs :: "'i \<Rightarrow> link_conn \<Rightarrow> anyhow + ('f peer \<times> routes_changed)" and cfg :: "'i \<Rightarrow> session_config"
    and k :: 'k and names :: "peer_names option" where
  sessions_start: "sessions_reach rt st own hs cfg k names (\<lambda>_. session_new)
    \<lparr>w_relay = relay_new k, w_names = names, w_counts = [], w_tx = []\<rparr>"
| sessions_step: "sessions_reach rt st own hs cfg k names ss w \<Longrightarrow>
    session_step rt st (\<lambda>ips. set ips \<subseteq> own i) (hs i) (cfg i) (ss i, w) (Done (s', w')) \<Longrightarrow>
    sessions_reach rt st own hs cfg k names (ss(i := s')) w'"

section \<open>What a session keeps\<close>

text \<open>
  What the relay answers for the addresses of a session, when nobody else uses them: the connected
  peer while the session receives, parked in between.
\<close>

definition answers :: "'v session \<Rightarrow> ip_addr \<Rightarrow> 'v dispatch option" where
  "answers s ip =
     (if ip \<in> set (s_routes s)
      then Some (case s_phase s of Receiving v \<Rightarrow> Connected v | _ \<Rightarrow> Parked) else None)"

definition session_ok ::
  "'k routing \<Rightarrow> 'k \<Rightarrow> ip_addr set \<Rightarrow> 'f peer session \<Rightarrow> ('f, 'k) world \<Rightarrow> bool" where
  "session_ok rt k own s w \<longleftrightarrow>
     relay_reach rt (\<lambda>_. True) k (w_relay w, None) \<and> set (s_routes s) \<subseteq> own \<and>
     (s_phase s = Stopped \<longrightarrow> s_routes s = []) \<and>
     (\<forall>ip \<in> own. relay_get (w_relay w) ip = answers s ip)"

lemma count_error_sel [simp]:
  "w_relay (count_error st self m e w) = w_relay w" "w_names (count_error st self m e w) = w_names w"
  by (simp_all add: count_error_def)

lemma park_routes_relay: "w_relay (park_routes routes w) = park routes (w_relay w)"
  by (simp add: park_routes_def)

lemma park_routes_names [simp]: "w_names (park_routes routes w) = w_names w"
  by (simp add: park_routes_def)

lemma withdraw_routes_Done:
  assumes "withdraw_routes rt self routes w = Done (routes', w')"
  shows "routes' = [] \<and> w_names w' = map_option (names_remove (session_name self)) (w_names w) \<and>
    (routes = [] \<and> w_relay w' = w_relay w \<or> relay_remove rt routes (w_relay w) = Done (w_relay w'))"
  using assms by (auto simp: withdraw_routes_def bind_outcome_Done_iff split: if_splits)

lemma withdraw_routes_no_panic: "\<not> panics (withdraw_routes rt self routes w)"
  using remove_locked_no_panic [of rt routes "w_relay w"]
  by (cases "remove_locked rt routes (w_relay w)") (simp_all add: withdraw_routes_def relay_remove_def)

text \<open>The relay after the registration of a session's new addresses.\<close>

lemma connect_Done:
  assumes "connect rt st adm self h routes w (Done (live, routes', w'))" and "guarded (w_relay w)"
  obtains (failed) "live = None" "routes' = routes" "w_relay w' = w_relay w" "w_names w' = w_names w"
    | (rolled_back) current where "adm current" "live = None" "routes' = []" "w_names w' = w_names w"
      "relay_get (w_relay w') = table_remove (set routes \<union> set current) (relay_get (w_relay w))"
    | (live) v where "adm routes'" "live = Some v"
      "relay_get (w_relay w') = table_insert routes' v (Inr ()) (table_remove (set routes) (relay_get (w_relay w)))"
      "w_names w' = map_option (names_set (session_name self) routes') (w_names w)"
  using assms(1)
proof cases
  case handshake_failed
  then show ?thesis by (intro failed) simp_all
next
  case (registration_failed changed v err r)
  with reconcile_table [OF registration_failed(6) assms(2)] show ?thesis
    by (intro rolled_back [of "changed_routes changed"])
      (auto simp: table_insert_def table_remove_def restrict_map_def fun_eq_iff)
next
  case (registered changed v r)
  with reconcile_table [OF registered(6) assms(2)] show ?thesis
    by (intro live [of v])
      (auto simp: table_insert_def table_remove_def restrict_map_def fun_eq_iff)
qed

lemma connect_reach:
  assumes "connect rt st adm self h routes w (Done (live, routes', w'))"
    and "relay_reach rt (\<lambda>_. True) k (w_relay w, None)"
  shows "relay_reach rt (\<lambda>_. True) k (w_relay w', None)"
  using assms(1) by cases (auto intro: assms(2) reach_reconcile [OF assms(2)])

lemma session_step_ok:
  assumes "routing_table rt R" and "session_step rt st adm hs self (s, w) (Done (s', w'))"
    and "session_ok rt k own s w" and adm: "\<And>ips. adm ips \<Longrightarrow> set ips \<subseteq> own"
  shows "session_ok rt k own s' w' \<and> (\<forall>ip. ip \<notin> own \<longrightarrow> relay_get (w_relay w') ip = relay_get (w_relay w) ip)"
proof -
  have reach: "relay_reach rt (\<lambda>_. True) k (w_relay w, None)" and rs: "set (s_routes s) \<subseteq> own"
    and stop: "s_phase s = Stopped \<longrightarrow> s_routes s = []"
    and tab: "\<And>ip. ip \<in> own \<Longrightarrow> relay_get (w_relay w) ip = answers s ip"
    using assms(3) by (auto simp: session_ok_def)
  have g: "guarded (w_relay w)"
    using routing_table.relay_reach_inv [OF assms(1) reach] by (simp add: relay_inv_def)
  from assms(2) show ?thesis
  proof cases
    case link_down
    then show ?thesis
      using reach rs tab
      by (auto simp: session_ok_def park_routes_relay reach_park park_table table_park_def answers_def)
  next
    case (link_ended routes)
    let ?w = "w\<lparr>w_counts := w_counts w @ [(''p2p_vpn_peer_session_link_ended'', [(''peer'', session_name self)])]\<rparr>"
    have "routes = []" and "s_routes s = [] \<and> w_relay w' = w_relay w \<or> relay_remove rt (s_routes s) (w_relay w) = Done (w_relay w')"
      using withdraw_routes_Done [OF link_ended(3)] by auto
    then show ?thesis
      using link_ended reach rs tab reach_remove [OF reach] relay_remove_table [OF _ g, of rt "s_routes s"]
      by (fastforce simp: session_ok_def answers_def table_remove_def restrict_map_def)
  next
    case (link_up c live routes)
    have r: "relay_reach rt (\<lambda>_. True) k (w_relay w', None)"
      by (rule connect_reach [OF link_up(3) reach])
    from link_up(3) g show ?thesis
    proof (cases rule: connect_Done)
      case failed
      then show ?thesis using link_up r rs tab by (auto simp: session_ok_def answers_def)
    next
      case (rolled_back current)
      then show ?thesis
        using link_up r rs tab adm [of current]
        by (auto simp: session_ok_def answers_def table_remove_def restrict_map_def)
    next
      case (live v)
      then show ?thesis
        using link_up r rs tab adm [of routes]
        by (auto simp: session_ok_def answers_def table_remove_def restrict_map_def table_insert_def)
    qed
  next
    case (packet_forwarded v rnd packets)
    then show ?thesis using assms(3) by (simp add: session_ok_def)
  next
    case (receive_ended v rnd packets err)
    then show ?thesis
      using reach rs tab
      by (auto simp: session_ok_def disconnect_def park_routes_relay reach_park park_table table_park_def answers_def)
  qed
qed

lemma sessions_ok:
  assumes "routing_table rt R" and "\<And>i j. i \<noteq> j \<Longrightarrow> own i \<inter> own j = {}"
    and "sessions_reach rt st own hs cfg k names ss w"
  shows "(\<forall>i. session_ok rt k (own i) (ss i) w) \<and> (\<forall>ip. (\<forall>i. ip \<notin> own i) \<longrightarrow> relay_get (w_relay w) ip = None)"
  using assms(3)
proof induction
  case sessions_start
  show ?case
    by (auto simp: session_ok_def session_new_def answers_def relay_get_def relay_new_def
        intro: reach_new [unfolded relay_new_def])
next
  case (sessions_step ss w i s' w')
  have i: "session_ok rt k (own i) s' w'" and frame: "\<And>ip. ip \<notin> own i \<Longrightarrow> relay_get (w_relay w') ip = relay_get (w_relay w) ip"
    using session_step_ok [OF assms(1) sessions_step(2), of k "own i"] sessions_step(3) by auto
  have "session_ok rt k (own j) (ss j) w'" if "j \<noteq> i" for j
  proof -
    have "session_ok rt k (own j) (ss j) w" using sessions_step(3) by blast
    moreover have "relay_get (w_relay w') ip = relay_get (w_relay w) ip" if "ip \<in> own j" for ip
      using frame that assms(2) [OF \<open>j \<noteq> i\<close>] by blast
    ultimately show ?thesis using i by (simp add: session_ok_def)
  qed
  then show ?case using i frame sessions_step(3) by simp
qed

text \<open>A peer that comes back with addresses that are all still registered.\<close>

lemma reconnect_registered:
  assumes "\<forall>ip \<in> set (changed_routes ch). relay_get (w_relay w) ip \<noteq> None"
    and "set routes \<subseteq> set (changed_routes ch)" and "adm (changed_routes ch)"
    and "connect rt st adm self (Inr (v, ch)) routes w r"
  shows "\<exists>w'. r = Done (Some v, changed_routes ch, w') \<and> os (w_relay w') = os (w_relay w) \<and>
    (\<forall>ip \<in> set (changed_routes ch). relay_get (w_relay w') ip = Some (Connected v))"
proof -
  have st: "remove_stale rt (changed_routes ch) routes (w_relay w) = Done (w_relay w)"
    using assms(2) by (auto simp: remove_stale_def stale_def filter_empty_conv)
  have rec: "\<exists>r'. x = Done (Inr (), r') \<and> os r' = os (w_relay w) \<and>
      (\<forall>ip \<in> set (changed_routes ch). relay_get r' ip = Some (Connected v))"
    if "reconcile rt st (changed_routes ch) routes v (w_relay w) x" for x
    using that
  proof cases
    case (reconcile_insert t)
    then have "relay_insert rt st (changed_routes ch) v (w_relay w) x" using st by simp
    then show ?thesis by (rule rearm_keeps_routes [OF assms(1)])
  next
    case (reconcile_panic m)
    then show ?thesis using st by simp
  qed
  from assms(4) show ?thesis
    by cases (use rec in fastforce)+
qed

lemma connect_exists:
  assumes "adm (changed_routes ch)" and "set routes \<subseteq> set (changed_routes ch)"
  shows "\<exists>r. connect rt st adm self (Inr (v, ch)) routes w r"
proof -
  have st: "remove_stale rt (changed_routes ch) routes (w_relay w) = Done (w_relay w)"
    using assms(2) by (auto simp: remove_stale_def stale_def filter_empty_conv)
  let ?x = "relay_insert_seq rt st (changed_routes ch) v (w_relay w)"
  have x: "reconcile rt st (changed_routes ch) routes v (w_relay w) ?x"
    by (rule reconcile_insert [OF st insert_seq_allowed])
  show ?thesis
  proof (cases ?x)
    case (Panic m)
    show ?thesis
      by (rule exI, rule registration_panicked [of adm, OF assms(1) x [unfolded Panic]])
  next
    case (Done y)
    obtain res r where y: "y = (res, r)" by (cases y)
    show ?thesis
    proof (cases res)
      case (Inl e)
      show ?thesis
        by (rule exI, rule registration_failed [of adm, OF assms(1) x [unfolded Done y Inl]])
    next
      case (Inr u)
      have "reconcile rt st (changed_routes ch) routes v (w_relay w) (Done (Inr (), r))"
        using x [unfolded Done y Inr] by simp
      from registered [of adm, OF assms(1) this] show ?thesis by (rule exI)
    qed
  qed
qed

section \<open>Properties\<close>

text \<open>(C3) The relay answers what the sessions are doing: when the peers' address sets do not overlap,
  then in every state that any interleaving of the sessions reaches, a lookup of an address of a
  session yields the connected peer exactly while that session receives from it, parked exactly
  while the session waits for its link with the address registered, and nothing once the session
  has stopped; and every address that is found has its route installed.\<close>

theorem sessions_dispatch:
  assumes "routing_table rt R" and "\<forall>i j. i \<noteq> j \<longrightarrow> own i \<inter> own j = {}"
    and "sessions_reach rt st own hs cfg k names ss w" and "ip \<in> own i"
  shows "relay_get (w_relay w) ip =
      (if ip \<in> set (s_routes (ss i))
       then Some (case s_phase (ss i) of Receiving v \<Rightarrow> Connected v | _ \<Rightarrow> Parked) else None) \<and>
    (s_phase (ss i) = Stopped \<longrightarrow> relay_get (w_relay w) ip = None) \<and>
    (relay_get (w_relay w) ip \<noteq> None \<longrightarrow> ip \<in> R (os (w_relay w)))"
proof -
  have ok: "session_ok rt k (own i) (ss i) w"
    using sessions_ok [OF assms(1) _ assms(3)] assms(2) by blast
  then have "relay_inv R (w_relay w)"
    using routing_table.relay_reach_inv [OF assms(1)] by (auto simp: session_ok_def)
  then have "relay_get (w_relay w) ip \<noteq> None \<longrightarrow> ip \<in> R (os (w_relay w))"
    by (auto simp: relay_inv_def relay_get_def)
  then show ?thesis
    using ok assms(4) by (auto simp: session_ok_def answers_def)
qed

text \<open>Two sessions, of which the first connects.\<close>

definition test_peer :: "nat peer" where
  "test_peer = default_peer \<lparr>own_ipv4 = None, own_ipv6 = None\<rparr> [1] \<lparr>own_addresses = []\<rparr> 0"

definition test_config :: "nat \<Rightarrow> session_config" where
  "test_config i = \<lparr>session_name = ''alice'', session_common = common (peer_config test_peer),
     session_advertise = \<lparr>own_addresses = []\<rparr>\<rparr>"

definition test_own :: "nat \<Rightarrow> ip_addr set" where
  "test_own i = {V4 (of_nat i)} - (if i < 2 then {} else UNIV)"

abbreviation test_handshake :: "nat \<Rightarrow> link_conn \<Rightarrow> anyhow + (nat peer \<times> routes_changed)" where
  "test_handshake i c \<equiv> Inr (test_peer, RoutesChanged [V4 (of_nat i)])"

abbreviation test_world :: "(nat, mock_route_handle) world" where
  "test_world \<equiv> \<lparr>w_relay = relay_new mock_new, w_names = None, w_counts = [], w_tx = []\<rparr>"

lemma test_connects:
  "\<exists>w. connect mock_routing grpc (\<lambda>ips. set ips \<subseteq> test_own 1) (test_config 1) (test_handshake 1 c) [] test_world
     (Done (Some test_peer, [V4 1], w))"
proof -
  obtain r where "relay_insert_seq mock_routing grpc [V4 1] test_peer (relay_new mock_new) = Done (Inr (), r)"
    by (simp add: relay_insert_seq_def relay_new_def poll_start_def poll_resume_def scoped_new_def
        mock_routing_def mock_insert_def mock_new_def)
  then have "relay_insert mock_routing grpc [V4 1] test_peer (relay_new mock_new) (Done (Inr (), r))"
    using insert_seq_allowed [of mock_routing grpc "[V4 1]" test_peer "relay_new mock_new"] by simp
  then have "reconcile mock_routing grpc [V4 1] [] test_peer (relay_new mock_new) (Done (Inr (), r))"
    by (intro reconcile_insert [of _ _ _ _ "relay_new mock_new"]) (simp_all add: remove_stale_def stale_def)
  then show ?thesis
    using registered [of "\<lambda>ips. set ips \<subseteq> test_own 1" "RoutesChanged [V4 1]" mock_routing grpc "[]" test_peer test_world r "test_config 1"]
    by (auto simp: test_own_def)
qed

lemma test_reach:
  "\<exists>ss w. sessions_reach mock_routing grpc test_own test_handshake test_config mock_new None ss w \<and>
     s_routes (ss 1) = [V4 1] \<and> s_phase (ss 1) = Receiving test_peer"
proof -
  obtain w where "connect mock_routing grpc (\<lambda>ips. set ips \<subseteq> test_own 1) (test_config 1) (test_handshake 1 c)
      (s_routes (session_new :: nat peer session)) test_world (Done (Some test_peer, [V4 1], w))"
    using test_connects by (auto simp: session_new_def)
  from link_up [where s = session_new and hs = "test_handshake 1" and c = c, OF _ this]
  have "session_step mock_routing grpc (\<lambda>ips. set ips \<subseteq> test_own 1) (test_handshake 1) (test_config 1)
      (session_new, test_world) (Done (\<lparr>s_routes = [V4 1], s_phase = Receiving test_peer\<rparr>, w))"
    by (simp add: session_new_def)
  from sessions_step [OF sessions_start, where i = 1 and hs = test_handshake and own = test_own and cfg = test_config, OF this]
  have "sessions_reach mock_routing grpc test_own test_handshake test_config mock_new None
      ((\<lambda>_. session_new)(1 := \<lparr>s_routes = [V4 1], s_phase = Receiving test_peer\<rparr>)) w" .
  then show ?thesis by fastforce
qed

lemma test_own_disjoint: "\<forall>i j. i \<noteq> j \<longrightarrow> test_own i \<inter> test_own j = {}"
  by (auto simp: test_own_def less_2_cases_iff split: if_splits)

theorem sessions_dispatch_witness:
  "\<exists>ss w. sessions_reach mock_routing grpc test_own test_handshake test_config mock_new None ss w \<and>
     relay_get (w_relay w) (V4 1) = Some (Connected test_peer) \<and> V4 1 \<in> active_routes (os (w_relay w))"
proof -
  obtain ss w where r: "sessions_reach mock_routing grpc test_own test_handshake test_config mock_new None ss w"
    and s: "s_routes (ss 1) = [V4 1]" "s_phase (ss 1) = Receiving test_peer"
    using test_reach by blast
  have "V4 1 \<in> test_own 1" by (simp add: test_own_def)
  from sessions_dispatch [OF mock.routing_table_axioms test_own_disjoint r this] s
  show ?thesis using r by auto
qed

text \<open>(C8) A peer that comes back is reachable again: when a session that waits with registered
  addresses gets a connection whose handshake negotiates the same addresses, the registration has an
  outcome, and every outcome makes all of them answer with the new peer. It needs no request to the
  operating system, so no failure of the system and no panic can prevent it.\<close>

theorem reconnect_reachable:
  assumes "routing_table rt R" and "\<forall>i j. i \<noteq> j \<longrightarrow> own i \<inter> own j = {}"
    and "sessions_reach rt st own hs cfg k names ss w"
    and "set (changed_routes ch) = set (s_routes (ss i))"
  shows "(\<exists>r. connect rt st (\<lambda>ips. set ips \<subseteq> own i) (cfg i) (Inr (v, ch)) (s_routes (ss i)) w r) \<and>
    (\<forall>r. connect rt st (\<lambda>ips. set ips \<subseteq> own i) (cfg i) (Inr (v, ch)) (s_routes (ss i)) w r \<longrightarrow>
      (\<exists>w'. r = Done (Some v, changed_routes ch, w') \<and> os (w_relay w') = os (w_relay w) \<and>
        (\<forall>ip \<in> set (changed_routes ch). relay_get (w_relay w') ip = Some (Connected v))))"
proof -
  have ok: "session_ok rt k (own i) (ss i) w"
    using sessions_ok [OF assms(1) _ assms(3)] assms(2) by blast
  then have adm: "set (changed_routes ch) \<subseteq> own i" using assms(4) by (simp add: session_ok_def)
  have "\<forall>ip \<in> set (changed_routes ch). relay_get (w_relay w) ip \<noteq> None"
    using ok adm assms(4) by (auto simp: session_ok_def answers_def)
  note reg = reconnect_registered [OF this, of "s_routes (ss i)" "\<lambda>ips. set ips \<subseteq> own i" rt st "cfg i" v]
  show ?thesis
    using reg assms(4) adm connect_exists [of "\<lambda>ips. set ips \<subseteq> own i" ch "s_routes (ss i)" rt st "cfg i" v w]
    by simp
qed

theorem reconnect_reachable_witness:
  "\<exists>ss w r. sessions_reach mock_routing grpc test_own test_handshake test_config mock_new None ss w \<and>
     connect mock_routing grpc (\<lambda>ips. set ips \<subseteq> test_own 1) (test_config 1)
       (Inr (test_peer, RoutesChanged [V4 1])) (s_routes (ss 1)) w r \<and>
     (\<exists>w'. r = Done (Some test_peer, [V4 1], w') \<and> relay_get (w_relay w') (V4 1) = Some (Connected test_peer))"
proof -
  obtain ss w where r: "sessions_reach mock_routing grpc test_own test_handshake test_config mock_new None ss w"
    and s: "s_routes (ss 1) = [V4 1]"
    using test_reach by blast
  then have "set (changed_routes (RoutesChanged [V4 1])) = set (s_routes (ss 1))" by simp
  note h = reconnect_reachable [OF mock.routing_table_axioms test_own_disjoint r this, of test_peer]
  then obtain x where x: "connect mock_routing grpc (\<lambda>ips. set ips \<subseteq> test_own 1) (test_config 1)
      (Inr (test_peer, RoutesChanged [V4 1])) (s_routes (ss 1)) w x" by blast
  with h have "\<exists>w'. x = Done (Some test_peer, [V4 1], w') \<and> relay_get (w_relay w') (V4 1) = Some (Connected test_peer)"
    by fastforce
  with r x show ?thesis by blast
qed

text \<open>(C39) A configured peer can take over the address of another: it signs the \<^verbatim>\<open>/128\<close> network of the
  victim's address with its own key, a node with the default configuration accepts that address as
  the peer's route, and the registration replaces the victim in the relay, whose packets the peer
  then receives. No step can refuse it while the victim is registered.\<close>

theorem address_takeover:
  assumes "ipnet_contract ipn" and "key_contract ks"
    and "net_contains ipn (NetV6 VPN_IPV6_DEFAULT_ALLOWED) (NetV6 (Ipv6Net victim 128))"
    and "relay_get self (V6 victim) = Some (Connected victim_peer)"
    and "reconcile rt st [V6 victim] [] attacker self r"
  shows "handle_control_request st ipn ks (default_peer g (public ks sk) adv space)
      (advertise_request \<lparr>own_addresses =
         [host_entry ipn (generate_signed_ipnet ipn ks (NetV6 (Ipv6Net victim 128)) sk)]\<rparr>) =
        (Inr (Some (RoutesChanged [V6 victim])), None) \<and>
    (\<exists>self'. r = Done (Inr (), self') \<and> relay_get self' (V6 victim) = Some (Connected attacker))"
proof
  show "handle_control_request st ipn ks (default_peer g (public ks sk) adv space)
      (advertise_request \<lparr>own_addresses =
         [host_entry ipn (generate_signed_ipnet ipn ks (NetV6 (Ipv6Net victim 128)) sk)]\<rparr>) =
        (Inr (Some (RoutesChanged [V6 victim])), None)"
    using host_network_accepted [OF assms(1-3), of "[NetV6 VPN_IPV6_DEFAULT_ALLOWED]" sk]
    by (simp add: handle_control_request_def advertise_request_def default_peer_def public_key_def
        common_peer_config_new_def Let_def)
  from assms(5) have "relay_insert rt st [V6 victim] attacker self r"
    by cases (auto simp: remove_stale_def stale_def)
  from rearm_keeps_routes [OF _ this] assms(4)
  show "\<exists>self'. r = Done (Inr (), self') \<and> relay_get self' (V6 victim) = Some (Connected attacker)"
    by auto
qed

definition victim_relay :: "(string, mock_route_handle) relay" where
  "victim_relay =
     \<lparr>os = \<lparr>active_routes = {V6 0xfdbda6ce654d00000000000000000042}, should_fail = False\<rparr>,
      peer_map = [V6 0xfdbda6ce654d00000000000000000042 \<mapsto>
        \<lparr>pv_value = Some ''victim'', pv_route = ScopedRoute (V6 0xfdbda6ce654d00000000000000000042)\<rparr>]\<rparr>"

theorem address_takeover_witness:
  "\<exists>r self'. reconcile mock_routing grpc [V6 0xfdbda6ce654d00000000000000000042] [] ''attacker'' victim_relay r \<and>
     r = Done (Inr (), self') \<and> relay_get self' (V6 0xfdbda6ce654d00000000000000000042) = Some (Connected ''attacker'')"
proof -
  let ?v = "V6 0xfdbda6ce654d00000000000000000042"
  have c: "net_contains cidr (NetV6 VPN_IPV6_DEFAULT_ALLOWED) (NetV6 (Ipv6Net 0xfdbda6ce654d00000000000000000042 128))"
    by code_simp
  have v: "relay_get victim_relay ?v = Some (Connected ''victim'')"
    by (simp add: relay_get_def victim_relay_def)
  have r: "reconcile mock_routing grpc [?v] [] ''attacker'' victim_relay
      (relay_insert_seq mock_routing grpc [?v] ''attacker'' victim_relay)"
    by (rule reconcile_insert [OF _ insert_seq_allowed]) (simp add: remove_stale_def stale_def)
  obtain self' where s: "relay_insert_seq mock_routing grpc [?v] ''attacker'' victim_relay = Done (Inr (), self')"
    "relay_get self' ?v = Some (Connected ''attacker'')"
    using address_takeover [OF cidr.ipnet_contract_axioms mac.key_contract_axioms c v r, THEN conjunct2] by (elim exE conjE)
  show ?thesis
    using r unfolding s(1) by (intro exI conjI) (assumption, rule HOL.refl, rule s(2))
qed

text \<open>(C40) A failed registration leaves the peer's name behind: when registering the routes of a
  reconnected peer fails, no address of the peer is left in the relay, old or new, but the DNS
  registry still answers with the old addresses.\<close>

theorem stale_name_after_failure:
  assumes "guarded (w_relay w)" and "w_names w = Some names"
    and "connect rt st adm self (Inr (v, ch)) routes w (Done (None, routes', w'))"
  shows "routes' = [] \<and> w_names w' = Some names \<and>
    (\<forall>ip \<in> set routes. relay_get (w_relay w') ip = None)"
  using assms(3)
proof cases
  case (registration_failed err' r')
  have "relay_get r' = table_insert (changed_routes ch) v (Inl err')
      (table_remove (set routes - set (changed_routes ch)) (relay_get (w_relay w)))"
    by (rule reconcile_table [OF _ assms(1)]) (use registration_failed in simp)
  then show ?thesis
    using registration_failed assms(2)
    by (auto simp: table_insert_def table_remove_def restrict_map_def)
qed

text \<open>A known peer that reconnects with another address while the system refuses routes.\<close>

definition failing_world :: "(nat, mock_route_handle) world" where
  "failing_world = \<lparr>w_relay = relay_new \<lparr>active_routes = {}, should_fail = True\<rparr>,
     w_names = Some (names_set ''alice'' [V4 7] (peer_names_new ''p2p'')), w_counts = [], w_tx = []\<rparr>"

theorem stale_name_after_failure_witness:
  "\<exists>w'. connect mock_routing grpc (\<lambda>_. True) (test_config 0) (Inr (test_peer, RoutesChanged [V4 9])) [V4 7]
       failing_world (Done (None, [], w')) \<and>
     w_names w' = Some (names_set ''alice'' [V4 7] (peer_names_new ''p2p'')) \<and>
     relay_get (w_relay w') (V4 7) = None"
proof -
  let ?w = failing_world and ?ch = "RoutesChanged [V4 9]"
  obtain t where t: "remove_stale mock_routing [V4 9] [V4 7] (w_relay ?w) = Done t" "peer_map t = Map.empty" "should_fail (os t)"
    by (simp add: remove_stale_def stale_def relay_remove_def remove_one_def failing_world_def relay_new_def
        mock_routing_def mock_remove_def)
  obtain e r where "relay_insert_seq mock_routing grpc [V4 9] test_peer t = Done (Inl e, r)"
    using t(2,3) by (simp add: relay_insert_seq_def poll_start_def poll_resume_def scoped_new_def mock_routing_def
        mock_insert_def remove_one_def)
  then have "relay_insert mock_routing grpc [V4 9] test_peer t (Done (Inl e, r))"
    using insert_seq_allowed [of mock_routing grpc "[V4 9]" test_peer t] by simp
  from reconcile_insert [OF t(1) this]
  have "reconcile mock_routing grpc (changed_routes ?ch) [V4 7] test_peer (w_relay ?w) (Done (Inl e, r))"
    by simp
  from registration_failed [of "\<lambda>_. True", OF TrueI this]
  obtain w' where c: "connect mock_routing grpc (\<lambda>_. True) (test_config 0) (Inr (test_peer, ?ch)) [V4 7] ?w (Done (None, [], w'))"
    by fast
  have "guarded (w_relay ?w)" "w_names ?w = Some (names_set ''alice'' [V4 7] (peer_names_new ''p2p''))"
    by (simp_all add: failing_world_def)
  note stale = stale_name_after_failure [OF this c]
  have "relay_get (w_relay w') (V4 7) = None" using stale by simp
  with c stale show ?thesis by (intro exI [of _ w'] conjI) (rule c, rule stale [THEN conjunct2, THEN conjunct1])
qed

end
