(* ===== verification/Tun_Device.thy ===== *)
theory Tun_Device
  imports Packet Route
begin

text \<open>
  The TUN interface (\<^verbatim>\<open>src/tun.rs\<close>): creating it, giving it an address, and the two tasks that
  move packets between the device and the channels. The device of the \<^verbatim>\<open>tun_rs\<close> crate is a
  parameter; the tasks are given by what one round of them does. Histograms are not modelled.
\<close>

section \<open>The interface\<close>

record device_builder =
  builder_name :: "string option"
  builder_description :: "string option"

text \<open>Building a device, and what it answers when it is asked for its name and its index.\<close>

record async_device =
  dev_name :: "io_error + string"
  dev_if_index :: "io_error + u32"

type_synonym device_api = "device_builder \<Rightarrow> io_error + async_device"

record tun_interface =
  tun_if_name :: string
  tun_if_index :: u32

definition with_description :: "bool \<Rightarrow> device_builder \<Rightarrow> string \<Rightarrow> device_builder" where
  "with_description windows builder description =
     (if windows then builder\<lparr>builder_description := Some description\<rparr> else builder)"

definition tun_new :: "device_api \<Rightarrow> bool \<Rightarrow> string option \<Rightarrow> string \<Rightarrow> anyhow + tun_interface" where
  "tun_new build_async windows if_name description =
     (let builder = \<lparr>builder_name = None, builder_description = None\<rparr>;
          builder = (case if_name of Some name \<Rightarrow> builder\<lparr>builder_name := Some name\<rparr> | None \<Rightarrow> builder);
          builder = with_description windows builder description
      in case build_async builder of
           Inl e \<Rightarrow> Inl (Context ''Failed to convert TUN device into async device'' (Io e))
         | Inr dev \<Rightarrow>
             (case dev_name dev of
                Inl e \<Rightarrow> Inl (Io e)
              | Inr dname \<Rightarrow>
                  (case dev_if_index dev of
                     Inl e \<Rightarrow> Inl (Context ''failed to get the device index'' (Io e))
                   | Inr index \<Rightarrow> Inr \<lparr>tun_if_name = dname, tun_if_index = index\<rparr>)))"

text \<open>Assigning an address with a prefix length to the device, on the state of the system.\<close>

record 'k address_api =
  add_address_v4 :: "u32 \<Rightarrow> nat \<Rightarrow> 'k \<Rightarrow> (io_error + unit) \<times> 'k"
  add_address_v6 :: "u128 \<Rightarrow> nat \<Rightarrow> 'k \<Rightarrow> (io_error + unit) \<times> 'k"

definition add_if_addr ::
  "'k address_api \<Rightarrow> nat list \<Rightarrow> tun_interface \<Rightarrow> ip_addr \<Rightarrow> 'k \<Rightarrow> (anyhow + unit) \<times> 'k" where
  "add_if_addr aa backoff self ip k =
     (case retry_on_windows_not_found backoff
             (\<lambda>k. case ip of V4 a \<Rightarrow> add_address_v4 aa a 32 k | V6 a \<Rightarrow> add_address_v6 aa a 128 k) k of
        (Inr u, k') \<Rightarrow> (Inr u, k')
      | (Inl e, k') \<Rightarrow>
          (Inl (Context (''when setting network address '' @ single_quoted (show_ip ip) @
             '' on TUN device '' @ single_quoted (tun_if_name self)) (Io e)), k'))"

section \<open>The tasks\<close>

text \<open>
  One round of the task that reads from the device. \<open>RxSkipped\<close> and \<open>RxTransient\<close>, with its
  counter's labels, go on with the next round, as does \<open>RxPacketSent\<close>; the others end the task. The
  packet that could not be sent stays inside the error.
\<close>

datatype rx_round =
    RxTransient "label list" | RxFailed anyhow | RxSkipped | RxPacketSent rx_packet
  | RxChannelClosed rx_packet

text \<open>\<open>None\<close> while the pool is empty. A slice that is not passed on is dropped.\<close>

definition rx_task_round ::
  "libc_api \<Rightarrow> status_api \<Rightarrow> tun_interface \<Rightarrow> (bytes \<Rightarrow> io_error + (bytes \<times> nat)) \<Rightarrow> nat \<Rightarrow> bool \<Rightarrow>
   buffer_pool \<Rightarrow> (rx_round \<times> buffer_pool option) outcome option" where
  "rx_task_round lc st self recv now receiver_gone bp =
     (case pop bp of
        None \<Rightarrow> None
      | Some (b, bp') \<Rightarrow>
          Some (bind_outcome (read_frame recv b (Some bp')) (\<lambda>(r, reclaim).
            case r of
              Inl err \<Rightarrow>
                if is_tun_transient lc err
                then Done (RxTransient (into_labels st (from_io st err) @ [(''if_name'', tun_if_name self)]), reclaim)
                else Done (RxFailed (Io err), reclaim)
            | Inr buf \<Rightarrow>
                if 0 < length (slice_deref buf)
                then Done (if receiver_gone then RxChannelClosed (rx_new now buf)
                           else RxPacketSent (rx_new now buf), reclaim)
                else bind_outcome (pooled_drop (to_buffer buf) reclaim)
                       (\<lambda>reclaim. Done (RxSkipped, reclaim)))))"

text \<open>One round of the task that writes to the device, with what the channel yields.\<close>

datatype tx_round = TxTransient "label list" | TxFailed anyhow | TxWritten

definition tx_task_round ::
  "libc_api \<Rightarrow> status_api \<Rightarrow> tun_interface \<Rightarrow> (bytes \<Rightarrow> io_error + nat) \<Rightarrow> tx_packet option \<Rightarrow> tx_round" where
  "tx_task_round lc st self send received =
     (case received of
        None \<Rightarrow> TxFailed (Message ''Channel dropped'')
      | Some packet \<Rightarrow>
          (case write_frame send (tx_data packet) of
             Inl err \<Rightarrow>
               if is_tun_transient lc err
               then TxTransient (into_labels st (from_io st err) @ [(''if_name'', tun_if_name self)])
               else TxFailed (Io err)
           | Inr _ \<Rightarrow> TxWritten))"

text \<open>\<^verbatim>\<open>control\<close> ends with the error of the task that ends first; a round that ends a task.\<close>

definition control_rx :: "rx_round \<Rightarrow> anyhow option" where
  "control_rx r =
     (case r of
        RxFailed e \<Rightarrow> Some (Context ''rx task'' e)
      | RxChannelClosed p \<Rightarrow> Some (Context ''rx task'' (Foreign ''channel closed''))
      | _ \<Rightarrow> None)"

definition control_tx :: "tx_round \<Rightarrow> anyhow option" where
  "control_tx r = (case r of TxFailed e \<Rightarrow> Some (Context ''tx task'' e) | _ \<Rightarrow> None)"

text \<open>The pool that \<^verbatim>\<open>control\<close> starts with.\<close>

definition control_pool :: "nat \<Rightarrow> buffer_pool outcome" where
  "control_pool buffer_pool_size = pool_new buffer_pool_size 2048"

section \<open>Rounds and consumers\<close>

text \<open>
  The pool and the packets that were received and not dropped yet: those in the channel and those
  that a consumer holds. A round of the task, a consumer that overwrites the bytes of a packet in
  place and a consumer that drops a packet come in any order. The device may behave differently in
  every round.
\<close>

definition received :: "rx_round \<Rightarrow> rx_packet list" where
  "received r = (case r of RxPacketSent p \<Rightarrow> [p] | _ \<Rightarrow> [])"

definition overwrite :: "bytes \<Rightarrow> rx_packet \<Rightarrow> rx_packet" where
  "overwrite bs p =
     (let b = to_buffer (rx_data p)
      in p\<lparr>rx_data := slice_from (b\<lparr>buffer := bs @ drop (filled_len b) (buffer b)\<rparr>)\<rparr>)"

inductive rx_reach ::
  "libc_api \<Rightarrow> status_api \<Rightarrow> tun_interface \<Rightarrow> nat \<Rightarrow> buffer_pool \<times> rx_packet list \<Rightarrow> bool"
  for lc st self count where
  rx_start: "control_pool count = Done bp \<Longrightarrow> rx_reach lc st self count (bp, [])"
| rx_next: "rx_reach lc st self count (bp, ps) \<Longrightarrow> device_recv_ok recv \<Longrightarrow>
    rx_task_round lc st self recv now False bp = Some (Done (r, Some bp')) \<Longrightarrow> control_rx r = None \<Longrightarrow>
    rx_reach lc st self count (bp', received r @ ps)"
| rx_overwritten: "rx_reach lc st self count (bp, xs @ p # ys) \<Longrightarrow> length bs = length (rx_deref p) \<Longrightarrow>
    rx_reach lc st self count (bp, xs @ overwrite bs p # ys)"
| rx_released: "rx_reach lc st self count (bp, xs @ p # ys) \<Longrightarrow>
    pooled_drop (to_buffer (rx_data p)) (Some bp) = Done (Some bp') \<Longrightarrow>
    rx_reach lc st self count (bp', xs @ ys)"

abbreviation held :: "rx_packet list \<Rightarrow> pooled_buffer list" where
  "held ps \<equiv> map (\<lambda>p. to_buffer (rx_data p)) ps"

definition rx_inv :: "nat \<Rightarrow> buffer_pool \<times> rx_packet list \<Rightarrow> bool" where
  "rx_inv count c \<longleftrightarrow>
     pool_inv count 2048 (Some (fst c), held (snd c)) \<and> \<not> receiver_closed (fst c) \<and>
     (\<forall>p \<in> set (snd c). rx_deref p \<noteq> [])"

text \<open>What a round does, by what the device answers for the buffer that the round takes.\<close>

definition round_of ::
  "libc_api \<Rightarrow> status_api \<Rightarrow> tun_interface \<Rightarrow> io_error + (bytes \<times> nat) \<Rightarrow> nat \<Rightarrow> bool \<Rightarrow> rx_round \<Rightarrow> bool" where
  "round_of lc st self answer now receiver_gone r =
     (case answer of
        Inl e \<Rightarrow>
          r = (if is_tun_transient lc e
               then RxTransient (into_labels st (from_io st e) @ [(''if_name'', tun_if_name self)])
               else RxFailed (Io e))
      | Inr (data, len) \<Rightarrow>
          if len = 0 then r = RxSkipped
          else (case r of
                  RxPacketSent p \<Rightarrow> \<not> receiver_gone \<and> rx_deref p = take len data \<and> rx_populated_at p = now
                | RxChannelClosed p \<Rightarrow> receiver_gone \<and> rx_deref p = take len data
                | _ \<Rightarrow> False))"

section \<open>Facts\<close>

lemma pop_inv:
  assumes "pool_inv count n (Some bp, out)" and "pop bp = Some (b, bp')"
  shows "pool_inv count n (Some bp', b # out)" and "filled_len b = 0"
    and "buffer b = hd (pool bp)" and "receiver_closed bp' = receiver_closed bp"
  using pool_inv_step [OF assms(1) popped [OF assms(2)]] assms(2)
  by (auto simp: pop_def split: list.splits)

lemma pooled_drop_open:
  assumes "pool_inv count n (Some bp, b # out)"
  obtains bp' where "pooled_drop b (Some bp) = Done (Some bp')" "pool_inv count n (Some bp', out)"
    "receiver_closed bp' = receiver_closed bp"
proof -
  have room: "length (pool bp) < max_capacity bp"
    using pool_inv_room [of count n bp "[]" b out] assms by simp
  obtain bp' where d: "pooled_drop b (Some bp) = Done (Some bp')"
      and "receiver_closed bp' = receiver_closed bp"
    using pooled_drop_Some [OF room, of b] by (simp add: Let_def)
  with pooled_drop_inv [of count n "Some bp" "[]" b out "Some bp'"] assms that show ?thesis
    by simp
qed

lemma read_frame_fresh:
  assumes "wf_buffer n b" and "filled_len b = 0" and "device_recv_ok recv"
    and "recv (buffer b) = Inr (data, len)"
  obtains s where "read_frame recv b r = Done (Inr s, r)" "slice_deref s = take len data"
    "wf_buffer n (to_buffer s)" "length (slice_deref s) = len"
proof -
  let ?s = "slice_from (read_buf_drop \<lparr>rb_data = data, rb_filled = len\<rparr> b)"
  have c: "chunk_mut b = buffer b" using assms(2) by (simp add: chunk_mut_def)
  note d = device_recvD [OF assms(3), of b data len, unfolded c, OF assms(4)]
  have r: "read_frame recv b r = Done (Inr ?s, r)"
    using assms(4) d c by (simp add: read_frame_def read_buf_def rb_advance_def Let_def)
  have t: "slice_deref ?s = take len data"
    using assms(2)
    by (simp add: slice_deref_def slice_from_def buffer_deref_def read_buf_drop_def set_chunk_def)
  show ?thesis
    using that [OF r t] read_frame_wf [OF r assms(3,1)] t d by simp
qed

lemma read_frame_error:
  assumes "wf_buffer n b" and "filled_len b = 0" and "recv (buffer b) = Inl e"
    and "pooled_drop b r = Done r'"
  shows "read_frame recv b r = Done (Inl e, r')"
  using assms read_buf_unused [OF assms(1)]
  by (simp add: read_frame_def read_buf_def chunk_mut_def Let_def)

lemma pop_pool: "pool bp \<noteq> [] \<Longrightarrow> \<exists>b bp'. pop bp = Some (b, bp')"
  by (auto simp: pop_def split: list.splits)

lemma round_failed:
  assumes "pop bp = Some (b, bp')" and "read_frame recv b (Some bp') = Done (Inl e, r)"
  shows "\<exists>x. rx_task_round lc st self recv now gone bp = Some (Done (x, r)) \<and>
    received x = [] \<and> round_of lc st self (Inl e) now gone x"
  using assms by (simp add: rx_task_round_def received_def round_of_def)

lemma round_skipped:
  assumes "pop bp = Some (b, bp')" and "read_frame recv b (Some bp') = Done (Inr s, Some bp')"
    and "slice_deref s = []" and "pooled_drop (to_buffer s) (Some bp') = Done r"
  shows "rx_task_round lc st self recv now gone bp = Some (Done (RxSkipped, r))"
  using assms by (simp add: rx_task_round_def)

lemma round_received:
  assumes "pop bp = Some (b, bp')" and "read_frame recv b (Some bp') = Done (Inr s, Some bp')"
    and "slice_deref s \<noteq> []"
  shows "rx_task_round lc st self recv now gone bp =
    Some (Done (if gone then RxChannelClosed (rx_new now s) else RxPacketSent (rx_new now s), Some bp'))"
  using assms by (simp add: rx_task_round_def)

lemma rx_round_total:
  assumes "rx_inv count (bp, ps)" and "device_recv_ok recv" and "pool bp \<noteq> []"
  obtains r bp' where "rx_task_round lc st self recv now gone bp = Some (Done (r, Some bp'))"
    "round_of lc st self (recv (hd (pool bp))) now gone r"
    "control_rx r = None \<Longrightarrow> rx_inv count (bp', received r @ ps)"
proof -
  have inv: "pool_inv count 2048 (Some bp, held ps)" and opened: "\<not> receiver_closed bp"
      and ne: "\<forall>p \<in> set ps. rx_deref p \<noteq> []"
    using assms(1) by (simp_all add: rx_inv_def)
  obtain b bp' where p: "pop bp = Some (b, bp')" using pop_pool [OF assms(3)] by blast
  note b = pop_inv [OF inv p]
  have wf: "wf_buffer 2048 b" using b(1) by (simp add: pool_inv_def)
  show ?thesis
  proof (cases "recv (buffer b)")
    case (Inl e)
    obtain bp'' where d: "pooled_drop b (Some bp') = Done (Some bp'')"
        "pool_inv count 2048 (Some bp'', held ps)" "receiver_closed bp'' = receiver_closed bp'"
      using pooled_drop_open [OF b(1)] .
    obtain x where x: "rx_task_round lc st self recv now gone bp = Some (Done (x, Some bp''))"
        "received x = []" "round_of lc st self (Inl e) now gone x"
      using round_failed [OF p read_frame_error [where recv = recv, OF wf b(2) Inl d(1)]] by blast
    show ?thesis using that [OF x(1)] x(2,3) d b opened ne Inl by (simp add: rx_inv_def)
  next
    case (Inr y)
    obtain data len where y: "recv (buffer b) = Inr (data, len)" using Inr by (cases y) simp
    obtain s where s: "read_frame recv b (Some bp') = Done (Inr s, Some bp')"
        "slice_deref s = take len data" "wf_buffer 2048 (to_buffer s)" "length (slice_deref s) = len"
      using read_frame_fresh [where r = "Some bp'", OF wf b(2) assms(2) y] .
    have inv': "pool_inv count 2048 (Some bp', to_buffer s # held ps)"
      using pool_inv_replace [of count 2048 "Some bp'" "[]" b "held ps"] b(1) s(3) by simp
    show ?thesis
    proof (cases "slice_deref s = []")
      case True
      obtain bp'' where d: "pooled_drop (to_buffer s) (Some bp') = Done (Some bp'')"
          "pool_inv count 2048 (Some bp'', held ps)" "receiver_closed bp'' = receiver_closed bp'"
        using pooled_drop_open [OF inv'] .
      show ?thesis
        using that [OF round_skipped [OF p s(1) True d(1)]] d(2,3) b opened ne y s(4) True
        by (simp add: rx_inv_def received_def round_of_def)
    next
      case False
      show ?thesis
        using that [OF round_received [OF p s(1) False]] inv' b opened ne y s(2,4) False
        by (cases gone) (auto simp: rx_inv_def received_def round_of_def rx_new_def rx_deref_def control_rx_def)
    qed
  qed
qed

lemma overwrite_facts:
  assumes "wf_buffer n (to_buffer (rx_data p))" and "length bs = length (rx_deref p)"
  shows "wf_buffer n (to_buffer (rx_data (overwrite bs p)))" and "rx_deref (overwrite bs p) = bs"
  using assms
  by (simp_all add: overwrite_def Let_def wf_buffer_def to_buffer_def slice_from_def rx_deref_def
      slice_deref_def buffer_deref_def)

lemma rx_reach_inv:
  assumes "rx_reach lc st self count c"
  shows "rx_inv count c"
  using assms
proof induction
  case (rx_start bp)
  then have "0 < count" by (auto simp: control_pool_def pool_new_def split: if_splits)
  then show ?case using rx_start
    by (auto simp: control_pool_def pool_new_Done rx_inv_def pool_inv_def)
next
  case (rx_next bp ps recv now r bp')
  have "pool bp \<noteq> []" using rx_next.hyps by (auto simp: rx_task_round_def pop_def)
  from rx_round_total [OF rx_next.IH rx_next.hyps(2) this, of lc st self now False]
  show ?case using rx_next.hyps by auto
next
  case (rx_overwritten bp xs p ys bs)
  have "wf_buffer 2048 (to_buffer (rx_data p))"
    using rx_overwritten.IH by (simp add: rx_inv_def pool_inv_def)
  note o = overwrite_facts [OF this rx_overwritten.hyps(2)]
  then show ?case
    using rx_overwritten pool_inv_replace [of count 2048 "Some bp" "held xs" _ "held ys", OF _ o(1)]
    by (auto simp: rx_inv_def)
next
  case (rx_released bp xs p ys bp')
  have "receiver_closed bp' = receiver_closed bp"
    using rx_released.hyps(2)
    by (auto simp: pooled_drop_def try_send_def Let_def split: sum.splits try_send_error.splits if_splits)
  then show ?case
    using rx_released pooled_drop_inv [of count 2048 "Some bp" "held xs" _ "held ys" "Some bp'"]
    by (auto simp: rx_inv_def)
qed

section \<open>Properties\<close>

text \<open>(C11) The task that reads from the TUN device never panics and never loses a buffer: whatever the
  device did in earlier rounds and however the consumers overwrote and dropped packets, the free
  buffers and the packets in flight add up to the size of the pool, every packet in flight has between
  1 and 2048 bytes, and the next round waits exactly when all buffers are in flight. Otherwise it
  completes and does what the answer of the device calls for: a transient error is counted, another
  error ends the task, an empty frame is dropped, and any other frame is passed on byte for byte.\<close>

theorem rx_task_safe:
  assumes "rx_reach lc st self count (bp, ps)" and "device_recv_ok recv"
  shows "length (pool bp) + length ps = count \<and>
    (\<forall>p \<in> set ps. 1 \<le> length (rx_deref p) \<and> length (rx_deref p) \<le> 2048) \<and>
    (if length ps = count then rx_task_round lc st self recv now gone bp = None
     else \<exists>r bp'. rx_task_round lc st self recv now gone bp = Some (Done (r, Some bp')) \<and>
            round_of lc st self (recv (hd (pool bp))) now gone r)"
proof -
  note inv = rx_reach_inv [OF assms(1)]
  have count: "length (pool bp) + length ps = count"
    using inv by (simp add: rx_inv_def pool_inv_def)
  moreover have "\<forall>p \<in> set ps. 1 \<le> length (rx_deref p) \<and> length (rx_deref p) \<le> 2048"
    using inv
    by (auto simp: rx_inv_def pool_inv_def wf_buffer_def rx_deref_def slice_deref_def
        buffer_deref_def to_buffer_def Suc_le_eq)
  moreover have "rx_task_round lc st self recv now gone bp = None" if "length ps = count"
    using count that by (simp add: rx_task_round_def pop_def)
  moreover have "\<exists>r bp'. rx_task_round lc st self recv now gone bp = Some (Done (r, Some bp')) \<and>
      round_of lc st self (recv (hd (pool bp))) now gone r" if "length ps \<noteq> count"
  proof -
    have "pool bp \<noteq> []" using count that by auto
    from rx_round_total [OF inv assms(2) this, of lc st self now gone] show ?thesis by metis
  qed
  ultimately show ?thesis by simp
qed

text \<open>The constants of Linux, and a pool of one buffer.\<close>

definition linux_libc :: libc_api where
  "linux_libc = \<lparr>EAGAIN = 11, EINTR = 4, EINVAL = 22, EMSGSIZE = 90, ENOBUFS = 105\<rparr>"

lemma one_buffer_reach:
  "rx_reach lc st self 1 (\<lparr>pool = [replicate 2048 0], max_capacity = 1, receiver_closed = False,
     capacity_gauge = 1, active_gauge = 0\<rparr>, [])"
  by (rule rx_start) (simp add: control_pool_def pool_new_Done)

theorem rx_task_safe_witness:
  "\<exists>p bp'. rx_task_round linux_libc grpc \<lparr>tun_if_name = ''tun0'', tun_if_index = 7\<rparr> two_byte_device 5 False
     \<lparr>pool = [replicate 2048 0], max_capacity = 1, receiver_closed = False, capacity_gauge = 1,
      active_gauge = 0\<rparr> = Some (Done (RxPacketSent p, Some bp')) \<and> rx_deref p = [1, 2]"
proof -
  obtain r bp' where r: "rx_task_round linux_libc grpc \<lparr>tun_if_name = ''tun0'', tun_if_index = 7\<rparr>
      two_byte_device 5 False \<lparr>pool = [replicate 2048 0], max_capacity = 1, receiver_closed = False,
      capacity_gauge = 1, active_gauge = 0\<rparr> = Some (Done (r, Some bp'))"
    and "round_of linux_libc grpc \<lparr>tun_if_name = ''tun0'', tun_if_index = 7\<rparr>
      (two_byte_device (replicate 2048 0)) 5 False r"
    using rx_task_safe [OF one_buffer_reach two_byte_device_ok, of linux_libc grpc
      "\<lparr>tun_if_name = ''tun0'', tun_if_index = 7\<rparr>" 5 False] by auto
  then show ?thesis by (cases r) (auto simp: round_of_def two_byte_device_def)
qed

end
