(* ===== verification/Main_Loop.thy ===== *)
theory Main_Loop
  imports Session Tun_Device Show Connection
begin

text \<open>
  The program itself (\<^verbatim>\<open>src/main.rs\<close>): its commands, what it sets up before it serves, and the loop
  that dispatches the packets of the TUN device to the resolver, to the peers or back with an ICMP
  error. The transport node, the host's resolver and the DNS packet handler are parameters; logging
  and the metrics exporter are not modelled.
\<close>

section \<open>Commands\<close>

datatype command_line = ShowCommand string | GenerateCommand string | RunCommand string

definition usage :: "string \<Rightarrow> string" where
  "usage prog =
     ''Usage: '' @ prog @ '' <config-file-path>'' @ newline @
     ''       '' @ prog @ '' show <config-file-path>'' @ newline @
     ''       '' @ prog @ '' generate <config-file-path>''"

definition parse_args :: "string list \<Rightarrow> command_line outcome" where
  "parse_args argv =
     (let failed = Panic (usage (case argv of [] \<Rightarrow> ''zeroconf-p2p-vpn'' | prog # _ \<Rightarrow> prog))
      in case argv of
           [_, sub, config_path] \<Rightarrow>
             if sub = ''show'' then Done (ShowCommand config_path)
             else if sub = ''generate'' then Done (GenerateCommand config_path)
             else failed
         | [_, config_path] \<Rightarrow> Done (RunCommand config_path)
         | _ \<Rightarrow> failed)"

text \<open>\<^verbatim>\<open>u16::from_str\<close>: decimal digits, at least one, with an optional plus sign.\<close>

definition digit_value :: "char \<Rightarrow> nat" where
  "digit_value c = of_char c - 48"

definition is_digit :: "char \<Rightarrow> bool" where
  "is_digit c = (48 \<le> (of_char c :: nat) \<and> (of_char c :: nat) \<le> 57)"

definition parse_u16 :: "string \<Rightarrow> u16 option" where
  "parse_u16 s =
     (let ds = (case s of [] \<Rightarrow> [] | c # cs \<Rightarrow> if c = CHR ''+'' then cs else s);
          n = foldl (\<lambda>n c. 10 * n + digit_value c) 0 ds
      in if ds = [] \<or> \<not> list_all is_digit ds \<or> 65536 \<le> n then None else Some (of_nat n))"

text \<open>The value of the environment variable, if it is set to a valid string, and the socket address.\<close>

definition get_metrics_addr :: "string option \<Rightarrow> (u128 \<times> u16) outcome" where
  "get_metrics_addr metrics_port =
     (case metrics_port of
        None \<Rightarrow> Done (0, 9189)
      | Some p \<Rightarrow>
          (case parse_u16 p of
             Some port \<Rightarrow> Done (0, port)
           | None \<Rightarrow> Panic ''METRICS_PORT must be a valid u16 number''))"

section \<open>Setup\<close>

record 'k main_env =
  env_windows :: bool
  env_linux :: bool
  env_backoff :: "nat list"
  env_build :: device_api
  env_addresses :: "'k address_api"
  env_route_handle :: "io_error + unit"
  env_routes :: "'k os_routes"
  env_node :: "anyhow + unit"
  env_dns_route_config :: "u128 \<Rightarrow> string \<Rightarrow> anyhow + unit"
  env_host_dns_set :: "string \<Rightarrow> u128 \<Rightarrow> string \<Rightarrow> anyhow + unit"

record main_state =
  m_tun :: tun_interface
  m_handle :: net_route_handle
  m_own_net :: ip_net
  m_gateway :: icmp_gateway
  m_advertise :: advertise
  m_common :: common_peer_config
  m_dns :: "(u128 \<times> peer_names) option"
  m_router :: incoming_router
  m_links :: "(string \<times> nat) list"

datatype main_result = MainFailed anyhow | NothingToDo | MainRunning main_state

definition own_identity ::
  "ipnet_api \<Rightarrow> key_api \<Rightarrow> u16 \<Rightarrow> secret_key \<Rightarrow> ip_net \<times> advertise" where
  "own_identity ipn ks subnet_id secret_key =
     (let (own_net, own_net_sig) = generate_signed_ipnet ipn ks (NetV6 (vpn_subnet subnet_id)) secret_key
      in (own_net,
          \<lparr>own_addresses = [\<lparr>peer_network = net_to_string ipn own_net,
             peer_network_signature = sig_bytes own_net_sig\<rparr>]\<rparr>))"

definition dns_server_addr :: "ip_addr \<Rightarrow> u128 outcome" where
  "dns_server_addr own =
     (case own of
        V6 a \<Rightarrow> Done (a XOR 1)
      | V4 _ \<Rightarrow> Panic ''VPN addresses are always IPv6'')"

definition no_host_dns :: "u128 \<Rightarrow> string \<Rightarrow> string" where
  "no_host_dns server suf =
     single_quoted ''[dns]'' @ '' is configured, but there is no automatic host DNS integration for '' @
     ''this platform yet; remove the '' @ single_quoted ''[dns]'' @
     '' section, or point the system resolver at '' @ show_ipv6 server @ '' for '' @
     single_quoted suf @ '' lookups to work''"

definition setup_dns ::
  "'k main_env \<Rightarrow> tun_interface \<Rightarrow> net_route_handle \<Rightarrow> ip_addr \<Rightarrow> dns_config option \<Rightarrow> 'k \<Rightarrow>
   ((anyhow + (u128 \<times> peer_names) option) \<times> 'k) outcome" where
  "setup_dns env tn handle own cfg k =
     (case cfg of
        None \<Rightarrow> Done (Inr None, k)
      | Some dns_cfg \<Rightarrow>
          (let suf = dns_config_suffix dns_cfg
           in bind_outcome (dns_server_addr own) (\<lambda>server.
                case net_insert (env_routes env) (env_backoff env) handle (V6 server) k of
                  (Inl e, k') \<Rightarrow> Done (Inl (Io e), k')
                | (Inr _, k') \<Rightarrow>
                    if env_linux env
                    then (case env_dns_route_config env server suf of
                            Inl e \<Rightarrow> Done (Inl e, k')
                          | Inr _ \<Rightarrow>
                              (case env_host_dns_set env (tun_if_name tn) server suf of
                                 Inl e \<Rightarrow> Done (Inl (Context
                                   ''Failed to configure the host's DNS resolver for peer names'' e), k')
                               | Inr _ \<Rightarrow> Done (Inr (Some (server, peer_names_new suf)), k')))
                    else Done (Inl (Message (no_host_dns server suf)), k'))))"

text \<open>The peers are registered in the order in which the map yields them, each with a channel of its own.\<close>

fun register_peers ::
  "(string \<times> public_key) list \<Rightarrow> nat \<Rightarrow> incoming_router \<Rightarrow> incoming_router \<times> (string \<times> nat) list" where
  "register_peers [] i router = (router, [])"
| "register_peers ((name, peer_key) # ps) i router =
     (let (router', links) = register_peers ps (Suc i) (register peer_key i router)
      in (router', (name, i) # links))"

definition main_setup ::
  "ipnet_api \<Rightarrow> key_api \<Rightarrow> (string set \<Rightarrow> string list) \<Rightarrow> 'k main_env \<Rightarrow> 'd config \<Rightarrow> secret_key \<Rightarrow> 'k \<Rightarrow>
   (main_result \<times> 'k) outcome" where
  "main_setup ipn ks order env config secret_key k =
     (if peers config = Map.empty then Done (NothingToDo, k)
      else
        case tun_new (env_build env) (env_windows env) (tun_name (tun config)) (tun_description (tun config)) of
          Inl e \<Rightarrow> Done (MainFailed e, k)
        | Inr tn \<Rightarrow>
        (case net_route_handle_new (env_route_handle env) (tun_if_index tn) of
          Inl e \<Rightarrow> Done (MainFailed (Io e), k)
        | Inr handle \<Rightarrow>
        (case env_node env of
          Inl e \<Rightarrow> Done (MainFailed e, k)
        | Inr _ \<Rightarrow>
          let (own_net, adv) = own_identity ipn ks (subnet config) secret_key;
              own = net_addr own_net
          in case add_if_addr (env_addresses env) (env_backoff env) tn own k of
               (Inl e, k') \<Rightarrow> Done (MainFailed e, k')
             | (Inr _, k') \<Rightarrow>
                 bind_outcome (setup_dns env tn handle own (dns config) k') (\<lambda>(r, k'').
                   case r of
                     Inl e \<Rightarrow> Done (MainFailed e, k'')
                   | Inr dns_dispatch \<Rightarrow>
                       let gateway = from_addr own;
                           (router, links) = register_peers (entries order (peers config)) 0 router_new
                       in Done (MainRunning \<lparr>m_tun = tn, m_handle = handle, m_own_net = own_net,
                            m_gateway = gateway, m_advertise = adv,
                            m_common = common_peer_config_new gateway, m_dns = dns_dispatch,
                            m_router = router, m_links = links\<rparr>, k'')))))"

section \<open>The packets of the TUN device\<close>

definition icmp_reply :: "etherparse \<Rightarrow> icmp_gateway \<Rightarrow> nat \<Rightarrow> rx_packet \<Rightarrow> icmp_type \<Rightarrow> tx_packet option" where
  "icmp_reply ep gateway now packet icmp_type =
     (case generate_reply ep gateway bytes_mut_room (rx_deref packet) icmp_type of
        (Inr _, buf) \<Rightarrow> Some (tx_new now buf)
      | (Inl _, _) \<Rightarrow> None)"

text \<open>
  What one round of the loop does: the packet it tries to send to the TUN side, the peer and the slice
  that was passed to its connection, the buffer that was dropped, and the counters it increments.
\<close>

record 'f tun_rx_effect =
  te_reply :: "tx_packet option"
  te_handed :: "('f peer \<times> pooled_slice) option"
  te_released :: "pooled_buffer option"
  te_counts :: "(string \<times> label list) list"

definition return_icmp ::
  "status_api \<Rightarrow> (tx_packet \<Rightarrow> anyhow + unit) \<Rightarrow> tx_packet option \<Rightarrow> (string \<times> label list) list" where
  "return_icmp st tx icmp_packet =
     (case icmp_packet of
        None \<Rightarrow> []
      | Some packet \<Rightarrow>
          (case tx packet of
             Inr _ \<Rightarrow> []
           | Inl err \<Rightarrow> [(''p2p_vpn_tun_rx_loop_return_icmp'', into_labels st (from_anyhow st err))]))"

text \<open>
  \<open>conn\<close> is the connection of a peer at that moment, and \<open>tx\<close> what the bounded channel to the TUN
  side answers.
\<close>

definition tun_rx_relay ::
  "status_api \<Rightarrow> etherparse \<Rightarrow> 'f float_api \<Rightarrow> ('f peer \<Rightarrow> quic) \<Rightarrow> 'f \<Rightarrow> nat \<Rightarrow> (tx_packet \<Rightarrow> anyhow + unit) \<Rightarrow>
   icmp_gateway \<Rightarrow> ('f peer, 'k) relay \<Rightarrow> ip_addr option \<Rightarrow> rx_packet \<Rightarrow> 'f tun_rx_effect outcome" where
  "tun_rx_relay st ep fa conn rng now tx gateway rl dest packet =
     (let answer = (\<lambda>icmp_type.
            let icmp_packet = icmp_reply ep gateway now packet icmp_type
            in Done \<lparr>te_reply = icmp_packet, te_handed = None,
                     te_released = Some (to_buffer (rx_data packet)),
                     te_counts = return_icmp st tx icmp_packet\<rparr>)
      in case Option.bind dest (relay_get rl) of
           Some (Connected p) \<Rightarrow>
             bind_outcome (send_packet ep fa (conn p) rng now p packet) (\<lambda>eff.
               let (icmp_packet, counts) =
                     (case se_result eff of
                        Inr icmp_packet \<Rightarrow> (icmp_packet, [])
                      | Inl err \<Rightarrow>
                          (None, [(''p2p_vpn_tun_rx_loop_send_packet'', into_labels st (from_anyhow st err))]))
               in Done \<lparr>te_reply = icmp_packet, te_handed = map_option (Pair p) (se_handed eff),
                        te_released = se_released eff,
                        te_counts = counts @ return_icmp st tx icmp_packet\<rparr>)
         | Some Parked \<Rightarrow> answer unreachable_host
         | None \<Rightarrow> answer unreachable_net)"

definition packet_dest :: "etherparse \<Rightarrow> rx_packet \<Rightarrow> ip_addr option" where
  "packet_dest ep packet =
     (case inet_slice ep (rx_deref packet) of Inl _ \<Rightarrow> None | Inr sl \<Rightarrow> destination_ip sl)"

text \<open>\<open>handle_packet\<close> is that of \<^verbatim>\<open>dns_stack\<close>.\<close>

definition tun_rx_round ::
  "status_api \<Rightarrow> etherparse \<Rightarrow> 'f float_api \<Rightarrow> (u128 \<Rightarrow> peer_names \<Rightarrow> bytes \<Rightarrow> bytes option) \<Rightarrow>
   ('f peer \<Rightarrow> quic) \<Rightarrow> 'f \<Rightarrow> nat \<Rightarrow> (tx_packet \<Rightarrow> anyhow + unit) \<Rightarrow> icmp_gateway \<Rightarrow>
   (u128 \<times> peer_names) option \<Rightarrow> ('f peer, 'k) relay \<Rightarrow> rx_packet \<Rightarrow> 'f tun_rx_effect outcome" where
  "tun_rx_round st ep fa handle_packet conn rng now tx gateway dns_dispatch rl packet =
     (let dest = packet_dest ep packet
      in case dns_dispatch of
           Some (server, resolver) \<Rightarrow>
             if dest = Some (V6 server)
             then Done \<lparr>te_reply = map_option (tx_new now) (handle_packet server resolver (rx_deref packet)),
                        te_handed = None, te_released = Some (to_buffer (rx_data packet)), te_counts = []\<rparr>
             else tun_rx_relay st ep fa conn rng now tx gateway rl dest packet
         | None \<Rightarrow> tun_rx_relay st ep fa conn rng now tx gateway rl dest packet)"

section \<open>Facts\<close>

lemma own_identity_eq:
  "own_identity ipn ks s sk = (fst (generate_signed_ipnet ipn ks (NetV6 (vpn_subnet s)) sk), node_advertise ipn ks s sk)"
  by (simp add: own_identity_def node_advertise_def host_entry_def split: prod.splits)

lemma own_identity_V6:
  obtains a q where "fst (own_identity ipn ks s sk) = NetV6 (Ipv6Net a q)" "node_addr ipn ks s sk = V6 a"
  by (simp add: own_identity_eq node_addr_def generate_signed_ipnet_def
      generate_signed_ip_with_signature_def Let_def)

lemma setup_dns_total: "\<exists>r. setup_dns env tn handle (V6 a) cfg k = Done r"
  by (auto simp: setup_dns_def dns_server_addr_def Let_def split: option.splits prod.splits sum.splits)

lemma setup_dns_Some:
  assumes "setup_dns env tn handle (V6 a) cfg k = Done (Inr (Some (server, names)), k')"
  shows "server = a XOR 1 \<and> (\<exists>c. cfg = Some c \<and> names = peer_names_new (dns_config_suffix c))"
  using assms
  by (auto simp: setup_dns_def dns_server_addr_def Let_def split: option.splits prod.splits sum.splits if_splits)

text \<open>The router that the peers are registered in, by the key of a peer.\<close>

lemma register_peers_links: "map fst (snd (register_peers ps i router)) = map fst ps"
  by (induction ps i router rule: register_peers.induct) (auto split: prod.splits)

lemma register_peers_other:
  "key \<notin> snd ` set ps \<Longrightarrow> by_peer (fst (register_peers ps i router)) key = by_peer router key"
  by (induction ps i router rule: register_peers.induct) (auto simp: register_def split: prod.splits)

lemma register_peers_nth:
  assumes "distinct (map snd ps)" and "j < length ps"
  shows "snd (register_peers ps i router) ! j = (fst (ps ! j), i + j) \<and>
    by_peer (fst (register_peers ps i router)) (snd (ps ! j)) = Some (i + j)"
  using assms
proof (induction ps i router arbitrary: j rule: register_peers.induct)
  case (2 name key ps i router)
  obtain router' links where r: "register_peers ps (Suc i) (register key i router) = (router', links)"
    by fastforce
  show ?case
  proof (cases j)
    case 0
    have "by_peer (fst (register_peers ps (Suc i) (register key i router))) key = Some i"
      using register_peers_other [of key ps "Suc i"] "2.prems" by (simp add: register_def)
    then show ?thesis using 0 r by simp
  next
    case (Suc n)
    then show ?thesis using "2.IH" [of n] "2.prems" r by simp
  qed
qed simp

lemma flip_low_bit: "(x :: u128) XOR 1 \<noteq> x"
proof
  assume "x XOR 1 = x"
  then have "bit (x XOR 1) 0 = bit x 0" by simp
  then show False by (simp add: bit_xor_iff)
qed

lemma flip_low_bit_net:
  fixes x :: u128
  assumes "0 < k"
  shows "(x XOR 1) AND NOT (mask k) = x AND NOT (mask k)"
  by (rule bit_word_eqI) (use assms in \<open>auto simp: bit_net_mask bit_xor_iff bit_1_iff\<close>)

lemma own_subnet_contains:
  assumes "ipnet_contract ipn" and "key_contract ks" and "node_addr ipn ks s sk = V6 a"
  shows "net_contains ipn (NetV6 (vpn_subnet s)) (NetV6 (Ipv6Net (a XOR 1) 128))"
proof -
  obtain own sg where g: "generate_signed_ipnet ipn ks (NetV6 (vpn_subnet s)) sk = (own, sg)" by fastforce
  then obtain q where own: "own = NetV6 (Ipv6Net a q)"
    using assms(3)
    by (auto simp: node_addr_def generate_signed_ipnet_def generate_signed_ip_with_signature_def Let_def)
  have "net_contains ipn (NetV6 (vpn_subnet s)) own"
    by (rule generated_contained [OF assms(1,2) vpn_subnet_wf g])
  then show ?thesis
    using generated_verifies(2) [OF assms(1,2) vpn_subnet_wf g]
    by (simp add: own vpn_subnet_def Let_def ipnet_contract.contains6 [OF assms(1)] flip_low_bit_net)
qed

lemma register_peers_channels: "map snd (snd (register_peers ps i router)) = [i..<i + length ps]"
  by (induction ps i router rule: register_peers.induct) (auto simp: upt_conv_Cons simp del: upt_Suc split: prod.splits)

context hash_order
begin

lemma length_entries: "finite (dom m) \<Longrightarrow> length (entries order m) = card (dom m)"
  using distinct_card [OF order_distinct] by (simp add: entries_def order_keys)

lemma distinct_values:
  assumes "finite (dom m)" and "inj_on m (dom m)"
  shows "distinct (map snd (entries order m))"
proof -
  have "inj_on (\<lambda>k. the (m k)) (dom m)"
    using assms(2) by (auto simp: inj_on_def dom_def)
  then show ?thesis
    using assms(1) by (simp add: entries_def distinct_map order_keys order_distinct comp_def)
qed

lemma registered_peers:
  assumes "finite (dom m)" and "inj_on m (dom m)"
    and "register_peers (entries order m) 0 router_new = (router, links)"
  shows "map snd links = [0..<card (dom m)]"
    and "m name = Some key \<Longrightarrow> \<exists>i. (name, i) \<in> set links \<and> by_peer router key = Some i"
    and "key \<notin> ran m \<Longrightarrow> by_peer router key = None"
proof -
  let ?ps = "entries order m"
  have router: "router = fst (register_peers ?ps 0 router_new)"
    and links: "links = snd (register_peers ?ps 0 router_new)" by (simp_all add: assms(3))
  show l: "map snd links = [0..<card (dom m)]"
    using register_peers_channels [of ?ps 0 router_new] length_entries [OF assms(1)] by (simp add: links)
  show "\<exists>i. (name, i) \<in> set links \<and> by_peer router key = Some i" if named: "m name = Some key"
  proof -
    obtain j where j: "j < length ?ps" "?ps ! j = (name, key)"
      using named set_entries [OF assms(1), of name key] by (auto simp: in_set_conv_nth)
    note r = register_peers_nth [OF distinct_values [OF assms(1,2)] j(1), of 0 router_new]
    have "length links = length ?ps"
      using register_peers_channels [of ?ps 0 router_new] by (metis links length_map length_upt add_diff_cancel_left')
    then have "(name, j) \<in> set links" using r j by (metis links nth_mem fst_conv add_0)
    then show ?thesis using r j by (auto simp: router)
  qed
  show "by_peer router key = None" if "key \<notin> ran m"
  proof -
    have "key \<notin> snd ` set ?ps"
      using that set_entries [OF assms(1)] by (auto simp: ran_def)
    then show ?thesis
      using register_peers_other [of key ?ps 0 router_new] by (simp add: router router_new_def)
  qed
qed

end

text \<open>The setup has an outcome, and a running program is what its parts produced.\<close>

lemma main_setup_outcome:
  assumes "node_addr ipn ks (subnet config) sk = V6 a"
  obtains (stopped) r k' where "main_setup ipn ks order env config sk k = Done (r, k')" "\<And>m. r \<noteq> MainRunning m"
    | (running) m k' k1 tn handle where "main_setup ipn ks order env config sk k = Done (MainRunning m, k')"
      "net_addr (m_own_net m) = V6 a" "m_advertise m = node_advertise ipn ks (subnet config) sk"
      "setup_dns env tn handle (V6 a) (dns config) k1 = Done (Inr (m_dns m), k')"
      "register_peers (entries order (peers config)) 0 router_new = (m_router m, m_links m)"
proof -
  obtain own where own: "own_identity ipn ks (subnet config) sk = (own, node_advertise ipn ks (subnet config) sk)"
      "net_addr own = V6 a"
    using assms by (simp add: own_identity_eq node_addr_def)
  obtain router links where reg: "register_peers (entries order (peers config)) 0 router_new = (router, links)"
    by fastforce
  show ?thesis
  proof (cases "\<exists>r k'. main_setup ipn ks order env config sk k = Done (r, k') \<and> (\<forall>m. r \<noteq> MainRunning m)")
    case True
    then show ?thesis using stopped by blast
  next
    case False
    have some: "peers config \<noteq> Map.empty" using False by (auto simp: main_setup_def)
    obtain tn where tn: "tun_new (env_build env) (env_windows env) (tun_name (tun config))
        (tun_description (tun config)) = Inr tn"
      using False some by (auto simp: main_setup_def split: sum.splits)
    obtain handle where h: "net_route_handle_new (env_route_handle env) (tun_if_index tn) = Inr handle"
      using False some tn by (auto simp: main_setup_def split: sum.splits)
    obtain u where n: "env_node env = Inr u"
      using False some tn h by (auto simp: main_setup_def split: sum.splits)
    obtain u' k1 where i: "add_if_addr (env_addresses env) (env_backoff env) tn (V6 a) k = (Inr u', k1)"
      using False some tn h n own by (auto simp: main_setup_def Let_def split: sum.splits prod.splits)
    obtain x k' where x: "setup_dns env tn handle (V6 a) (dns config) k1 = Done (x, k')"
      using setup_dns_total [of env tn handle a "dns config" k1] by auto
    obtain d where d: "x = Inr d"
      using False some tn h n own i x by (cases x) (auto simp: main_setup_def)
    let ?m = "\<lparr>m_tun = tn, m_handle = handle, m_own_net = own, m_gateway = from_addr (V6 a),
      m_advertise = node_advertise ipn ks (subnet config) sk,
      m_common = common_peer_config_new (from_addr (V6 a)), m_dns = d, m_router = router, m_links = links\<rparr>"
    have "main_setup ipn ks order env config sk k = Done (MainRunning ?m, k')"
      using some tn h n own i x d reg by (simp add: main_setup_def Let_def)
    then show ?thesis
      by (rule running [of ?m k' tn handle k1]) (use own x d reg in simp_all)
  qed
qed

text \<open>What a round does with a packet for a connected peer.\<close>

lemma relay_connected:
  assumes "etherparse_contract ep" and "Option.bind dest (relay_get rl) = Some (Connected p)"
  obtains eff where "tun_rx_relay st ep fa conn rng now tx gateway rl dest packet = Done eff"
    "te_handed eff = None \<longleftrightarrow> te_released eff \<noteq> None"
    "\<And>q sl. te_handed eff = Some (q, sl) \<Longrightarrow> q = p \<and> length (slice_deref sl) = length (rx_deref packet)"
  using assms(1)
proof (cases rule: send_packet_cases [where conn = "conn p" and packet = packet and fa = fa and rng = rng
      and now = now and self = p])
  case (too_big mtu)
  then show ?thesis using that assms(2) by (simp add: tun_rx_relay_def)
next
  case (dropped b)
  then show ?thesis using that assms(2) by (simp add: tun_rx_relay_def)
next
  case (handed b)
  have "length (buffer_deref b) = length (rx_deref packet)"
    using handed(3) congestion_total [OF assms(1), of "rx_deref packet"] by auto
  then show ?thesis
    using that handed(2) assms(2)
    by (cases "send_datagram (conn p) (buffer_deref b)") (simp_all add: tun_rx_relay_def deref_slice_from)
qed

lemma relay_unreachable:
  "Option.bind dest (relay_get rl) = Some Parked \<Longrightarrow>
     tun_rx_relay st ep fa conn rng now tx gateway rl dest packet =
       (let reply = icmp_reply ep gateway now packet unreachable_host
        in Done \<lparr>te_reply = reply, te_handed = None, te_released = Some (to_buffer (rx_data packet)),
                 te_counts = return_icmp st tx reply\<rparr>)"
  "Option.bind dest (relay_get rl) = None \<Longrightarrow>
     tun_rx_relay st ep fa conn rng now tx gateway rl dest packet =
       (let reply = icmp_reply ep gateway now packet unreachable_net
        in Done \<lparr>te_reply = reply, te_handed = None, te_released = Some (to_buffer (rx_data packet)),
                 te_counts = return_icmp st tx reply\<rparr>)"
  by (simp_all add: tun_rx_relay_def Let_def)

definition for_resolver :: "etherparse \<Rightarrow> (u128 \<times> peer_names) option \<Rightarrow> rx_packet \<Rightarrow> bool" where
  "for_resolver ep dns_dispatch packet =
     (case dns_dispatch of
        Some (server, _) \<Rightarrow> packet_dest ep packet = Some (V6 server)
      | None \<Rightarrow> False)"

lemma tun_rx_round_dns:
  "packet_dest ep packet = Some (V6 server) \<Longrightarrow>
     tun_rx_round st ep fa handle_packet conn rng now tx gateway (Some (server, names)) rl packet =
       Done \<lparr>te_reply = map_option (tx_new now) (handle_packet server names (rx_deref packet)),
             te_handed = None, te_released = Some (to_buffer (rx_data packet)), te_counts = []\<rparr>"
  by (simp add: tun_rx_round_def)

lemma tun_rx_round_relay:
  "\<not> for_resolver ep dns_dispatch packet \<Longrightarrow>
     tun_rx_round st ep fa handle_packet conn rng now tx gateway dns_dispatch rl packet =
       tun_rx_relay st ep fa conn rng now tx gateway rl (packet_dest ep packet) packet"
  by (cases dns_dispatch) (auto simp: tun_rx_round_def for_resolver_def Let_def)

section \<open>Properties\<close>


definition mock_rx :: rx_packet where
  "mock_rx = rx_new 0 (PooledSlice \<lparr>buffer = mock_ipv4_packet, filled_len = 28\<rparr>)"

lemma mock_rx_dest: "packet_dest rfc mock_rx = Some (V4 0x08080808)" "rx_deref mock_rx = mock_ipv4_packet"
proof -
  show d: "rx_deref mock_rx = mock_ipv4_packet"
    by (simp add: mock_rx_def rx_new_def rx_deref_def slice_deref_def buffer_deref_def mock_ipv4_packet_def)
  show "packet_dest rfc mock_rx = Some (V4 0x08080808)"
    by (simp add: packet_dest_def d mock_ipv4_slice)
qed


text \<open>(C9) What the program sets up is fit to be served: with any valid configuration the setup never
  panics, and when it succeeds, every node with the default configuration accepts the advertisement
  and routes exactly the own address to this node; the address of the resolver differs from the own
  one and lies in the own subnet; and, if no two peers share a key, every configured peer has a link
  with a channel of its own, which is the one its incoming connections are routed to, while keys that
  are not configured have none.\<close>

theorem main_setup_serves:
  fixes space :: 'f
  assumes "ipnet_contract ipn" and "key_contract ks" and "hash_order order"
    and "finite (dom (peers config))" and "inj_on (peers config) (dom (peers config))"
    and "subnet config \<le> MAX_SUBNET"
  shows "\<exists>r k'. main_setup ipn ks order env config sk k = Done (r, k') \<and>
    (\<forall>m. r = MainRunning m \<longrightarrow>
      handle_control_request st ipn ks (default_peer g (public ks sk) adv space) (advertise_request (m_advertise m)) =
        (Inr (Some (RoutesChanged [net_addr (m_own_net m)])), None) \<and>
      (\<forall>server names. m_dns m = Some (server, names) \<longrightarrow> V6 server \<noteq> net_addr (m_own_net m) \<and>
        net_contains ipn (NetV6 (vpn_subnet (subnet config))) (NetV6 (Ipv6Net server 128))) \<and>
      map snd (m_links m) = [0..<card (dom (peers config))] \<and>
      (\<forall>name key. peers config name = Some key \<longrightarrow>
        (\<exists>i. (name, i) \<in> set (m_links m) \<and> by_peer (m_router m) key = Some i)) \<and>
      (\<forall>key. key \<notin> ran (peers config) \<longrightarrow> by_peer (m_router m) key = None))"
proof -
  obtain a where a: "node_addr ipn ks (subnet config) sk = V6 a" using own_identity_V6 by blast
  then show ?thesis
  proof (cases rule: main_setup_outcome [where order = order and env = env and k = k])
    case (stopped r k')
    then show ?thesis by blast
  next
    case (running m k' k1 tn handle)
    have "handle_control_request st ipn ks (default_peer g (public ks sk) adv space) (advertise_request (m_advertise m)) =
        (Inr (Some (RoutesChanged [net_addr (m_own_net m)])), None)"
      using handle_node_advertise [OF assms(1,2), of st g sk adv space "subnet config"] assms(6) running(2,3) a
      by simp
    moreover have "V6 server \<noteq> net_addr (m_own_net m) \<and>
        net_contains ipn (NetV6 (vpn_subnet (subnet config))) (NetV6 (Ipv6Net server 128))"
      if "m_dns m = Some (server, names)" for server names
      using setup_dns_Some [of env tn handle a "dns config" k1 server names k'] running(2,4) that
        own_subnet_contains [OF assms(1,2) a] flip_low_bit [of a] by simp
    ultimately show ?thesis
      using running(1) hash_order.registered_peers [OF assms(3-5) running(5)]
      by (intro exI [of _ "MainRunning m"] exI [of _ k']) auto
  qed
qed

text \<open>A node on a system that grants everything, and a configuration with two peers.\<close>

definition granting_env :: "unit main_env" where
  "granting_env = \<lparr>env_windows = False, env_linux = True, env_backoff = [],
     env_build = (\<lambda>_. Inr \<lparr>dev_name = Inr ''tun0'', dev_if_index = Inr 7\<rparr>),
     env_addresses = \<lparr>add_address_v4 = (\<lambda>_ _ k. (Inr (), k)), add_address_v6 = (\<lambda>_ _ k. (Inr (), k))\<rparr>,
     env_route_handle = Inr (),
     env_routes = \<lparr>os_add = (\<lambda>_ k. (Inr (), k)), os_delete = (\<lambda>_ k. (Inr (), k))\<rparr>,
     env_node = Inr (), env_dns_route_config = (\<lambda>_ _. Inr ()), env_host_dns_set = (\<lambda>_ _ _. Inr ())\<rparr>"

definition two_keys :: "unit config" where
  "two_keys = \<lparr>subnet = 7, private_key_path = path_file ''key'', peers = [''alice'' \<mapsto> [1], ''bob'' \<mapsto> [2]],
     tun = \<lparr>tun_name = None, tun_description = DEFAULT_TUN_DESCRIPTION\<rparr>, discovery = (),
     dns = Some \<lparr>dns_config_suffix = ''p2p''\<rparr>\<rparr>"

lemma granted:
  "\<exists>m k'. main_setup cidr mac sorted_list_of_set granting_env two_keys [3] () = Done (MainRunning m, k') \<and>
     (\<exists>d. m_dns m = Some d)"
proof -
  obtain a where a: "node_addr cidr mac 7 [3] = V6 a" using own_identity_V6 by blast
  then have "net_addr (fst (generate_signed_ipnet cidr mac (NetV6 (vpn_subnet 7)) [3])) = V6 a"
    by (simp add: node_addr_def)
  then show ?thesis
    by (simp add: main_setup_def own_identity_eq granting_env_def two_keys_def tun_new_def with_description_def
        net_route_handle_new_def add_if_addr_def setup_dns_def dns_server_addr_def net_insert_def retry_simps
        Let_def split: prod.splits)
qed

theorem main_setup_serves_witness:
  "\<exists>m k' server names. main_setup cidr mac sorted_list_of_set granting_env two_keys [3] () = Done (MainRunning m, k') \<and>
     map snd (m_links m) = [0, 1] \<and> m_dns m = Some (server, names) \<and> V6 server \<noteq> net_addr (m_own_net m)"
proof -
  have "finite (dom (peers two_keys))" "inj_on (peers two_keys) (dom (peers two_keys))" "subnet two_keys \<le> MAX_SUBNET"
    and card: "card (dom (peers two_keys)) = 2"
    by (auto simp: two_keys_def MAX_SUBNET_value inj_on_def)
  note h = main_setup_serves [OF cidr.ipnet_contract_axioms mac.key_contract_axioms
    sorted_keys.hash_order_axioms this(1-3), of granting_env "[3]" "()" grpc
    "\<lparr>own_ipv4 = None, own_ipv6 = None\<rparr>" "\<lparr>own_addresses = []\<rparr>" "0 :: nat"]
  obtain m k' server names where m: "main_setup cidr mac sorted_list_of_set granting_env two_keys [3] () = Done (MainRunning m, k')"
    "m_dns m = Some (server, names)" using granted by auto
  have "map snd (m_links m) = [0..<2]" "V6 server \<noteq> net_addr (m_own_net m)"
    using h m card by auto
  then show ?thesis using m by (auto simp: upt_rec)
qed

end
