(* ===== verification/Spec2Isabelle.thy ===== *)
theory Spec2Isabelle
  imports Validate_Addr Relay_Correct Buffer_Pool Ecn Packet Dns Show Connection Session Tun_Device
    Main_Loop
begin

text \<open>
  This library models a peer-to-peer VPN, the Rust program under \<^verbatim>\<open>src/src/\<close>, and proves what its
  parts promise. A node derives its IPv6 address from a signature of its own key, advertises it to
  the peers of its configuration over QUIC connections, installs a host route for every address that
  a peer proves to own, and moves packets between a TUN interface and the connections.

  \<^bold>\<open>How a packet and a connection travel.\<close> The TUN task takes a buffer from the pool, reads a packet
  into it and sends it to the main loop. The main loop answers packets for its own resolver, looks the
  destination up in the relay and passes the packet to the peer that owns it, or answers with an ICMP
  error. A peer marks or drops packets under congestion before it sends them. Incoming connections are
  routed by the key of the remote to the session of that peer; a session runs the handshake on every
  connection, registers the negotiated addresses in the relay and the peer's name with the resolver,
  and forwards the datagrams it receives to the TUN device.

  \<^bold>\<open>Theories.\<close>
  \<^item> \<open>Prelude\<close>, \<open>Net\<close>, \<open>Text_Format\<close>: outcomes (a result or a panic), bytes and words, addresses and
    networks with the contract of the \<^verbatim>\<open>ipnet\<close> crate, and the formatting of \<^verbatim>\<open>std::fmt\<close>.
  \<^item> \<open>Errors\<close>: \<^verbatim>\<open>error.rs\<close>, \<^verbatim>\<open>osal/tun/error.rs\<close>; the I/O errors, statuses and \<^verbatim>\<open>anyhow\<close> errors, and the
    labels extracted from them. \<open>Crates\<close>: the keys, and a concrete instance of each crate interface.
  \<^item> \<open>Addr\<close>: \<^verbatim>\<open>addr.rs\<close>. A derived address verifies and stays in its network, the signed message
    determines the network, and a signature vouches for one address.
  \<^item> \<open>Proto\<close>: \<^verbatim>\<open>proto.rs\<close> and \<^verbatim>\<open>control.proto\<close>. Bounded reads under every chunking, and one exchange
    seen from both sides.
  \<^item> \<open>Validate_Addr\<close>: \<^verbatim>\<open>peer/validate_addr.rs\<close>. What validation returns is allowed and signed.
  \<^item> \<open>Route\<close>: \<^verbatim>\<open>route.rs\<close>, \<^verbatim>\<open>osal/retry.rs\<close>. The retry, host routes and the route guard, whose
    destructor panics when it is dropped armed.
  \<^item> \<open>Relay\<close>, \<open>Relay_Correct\<close>: \<^verbatim>\<open>relay.rs\<close>. The futures of an insertion are a step relation under
    arbitrary scheduling. The relay refines an abstract table, keeps its routes in step with its
    entries, undoes failed insertions, and terminates.
  \<^item> \<open>Buffer_Pool\<close>: \<^verbatim>\<open>buffer_pool.rs\<close>. No buffer is lost or duplicated under any interleaving.
  \<^item> \<open>Etherparse\<close>: the interface of the \<^verbatim>\<open>etherparse\<close> crate with its contract and an instance. \<open>Ecn\<close>:
    \<^verbatim>\<open>route/ecn.rs\<close>, marking and admission. \<open>Packet\<close>: \<^verbatim>\<open>tun/packet.rs\<close>, ICMP replies.
  \<^item> \<open>Dns\<close>: \<^verbatim>\<open>dns.rs\<close>. \<open>Config_File\<close>: \<^verbatim>\<open>config.rs\<close>. \<open>Generate\<close>: \<^verbatim>\<open>generate.rs\<close> on a store of files.
    \<open>Show\<close>: \<^verbatim>\<open>show.rs\<close>. \<open>Connection\<close>: \<^verbatim>\<open>connection.rs\<close>.
  \<^item> \<open>Peer\<close>: \<^verbatim>\<open>peer.rs\<close>. Sending, the handshake between two nodes, and receiving.
  \<^item> \<open>Session\<close>: \<^verbatim>\<open>session.rs\<close>. The loops of all sessions interleave over one relay and one set of names.
  \<^item> \<open>Tun_Device\<close>: \<^verbatim>\<open>tun.rs\<close>. The interface and the rounds of its two tasks, interleaved with the
    consumers of the packets.
  \<^item> \<open>Main_Loop\<close>: \<^verbatim>\<open>main.rs\<close>. Commands, setup, and the dispatch of packets.
  This theory holds the property that spans the main loop, the relay and the sessions.

  \<^bold>\<open>State and effects.\<close> A struct is a record and an enum a datatype under the source's names. A
  method that changes state takes and returns it. \<^verbatim>\<open>Result\<close> is a sum with the error on the left, a
  panic is the outcome \<open>Panic\<close> with its message, and a call that waits is an option or has no step.
  Words have their widths. Shared state behind a lock or a channel is a step relation, so that the
  theorems hold for every interleaving.

  \<^bold>\<open>Code of other crates.\<close> Networks, keys, the protobuf codec, statuses, packet headers, floating
  point, the operating system's routes, the TOML reader, key files, the suffix test of the resolver
  and the order of hash maps are parameters. What the program relies on is a locale, interpreted on a
  concrete instance, and theorems name the contracts they need. Connections, devices and streams are
  arguments that may answer anything, within \<open>device_recv_ok\<close> for the TUN device.

  \<^bold>\<open>Bounds.\<close> No definition has fuel. Endless loops are modelled by their rounds and reachability;
  loops over a finite input are structural; the retry is bounded by its list of delays. An insertion
  is shown to take at most two polls per address.

  \<^bold>\<open>Not modelled.\<close> Log output, spans, histograms and the metrics exporter, including
  \<^verbatim>\<open>peer/conn_metrics.rs\<close>, which only copies statistics of a connection into gauges. The test harness
  \<^verbatim>\<open>peer/test_util.rs\<close> and the bodies of unit tests. The transport node and the reconnection policy of
  \<^verbatim>\<open>iroh_persistent\<close>, the DNS wire format and the host's resolver, which are other crates. Timing is
  reduced to whether a deadline passed. A registration is one step among the sessions. In the program
  the relay is unlocked between the removal of stale addresses and the insertion of the new ones, and
  lookups and parking take no lock, so the states inside a registration can be observed; those states
  are covered by \<open>Relay_Correct\<close> and not by the theorems about sessions.
\<close>

section \<open>From the TUN device to the owner of an address\<close>

lemma icmp_reply6:
  assumes "etherparse_contract ep" and "inet_slice ep (rx_deref packet) = Inr (Ipv6Slice s d)"
    and "own_ipv6 gateway = Some gw"
  obtains r where "icmp_reply ep gateway now packet t = Some r" "take 16 (drop 8 (tx_data r)) = octets6 gw"
    "take 16 (drop 24 (tx_data r)) = take 16 (drop 8 (rx_deref packet))"
    "drop 48 (tx_data r) = take 64 (rx_deref packet)"
proof -
  have "112 \<le> bytes_mut_room" by (simp add: bytes_mut_room_def)
  from etherparse_contract.reply6 [OF assms this]
  obtain b where "generate_reply ep gateway bytes_mut_room (rx_deref packet) t = (Inr (V6 s), b)"
    "take 16 (drop 8 b) = octets6 gw" "take 16 (drop 24 b) = take 16 (drop 8 (rx_deref packet))"
    "drop 48 b = take 64 (rx_deref packet)" by metis
  then show ?thesis by (intro that [of "tx_new now b"]) (simp_all add: icmp_reply_def tx_new_def)
qed

lemma sessions_connected:
  assumes "routing_table rt R" and "\<forall>i j. i \<noteq> j \<longrightarrow> own i \<inter> own j = {}"
    and "sessions_reach rt st own hs cfg k names ss w"
  shows "relay_get (w_relay w) ip = Some (Connected p) \<longleftrightarrow>
    (\<exists>i. ip \<in> set (s_routes (ss i)) \<and> s_phase (ss i) = Receiving p)"
proof -
  have ok: "session_ok rt k (own i) (ss i) w" and none: "(\<forall>i. ip \<notin> own i) \<longrightarrow> relay_get (w_relay w) ip = None" for i
    using sessions_ok [OF assms(1) _ assms(3)] assms(2) by blast+
  have get: "relay_get (w_relay w) ip = answers (ss i) ip" if "ip \<in> own i" for i
    using ok [of i] that by (simp add: session_ok_def)
  have sub: "set (s_routes (ss i)) \<subseteq> own i" for i using ok [of i] by (simp add: session_ok_def)
  show ?thesis
  proof
    assume a: "relay_get (w_relay w) ip = Some (Connected p)"
    with none obtain i where "ip \<in> own i" by auto
    with a get [of i] show "\<exists>i. ip \<in> set (s_routes (ss i)) \<and> s_phase (ss i) = Receiving p"
      by (auto simp: answers_def split: if_splits phase.splits)
  next
    assume "\<exists>i. ip \<in> set (s_routes (ss i)) \<and> s_phase (ss i) = Receiving p"
    then obtain i where "ip \<in> set (s_routes (ss i))" "s_phase (ss i) = Receiving p" by blast
    with get [of i] sub [of i] show "relay_get (w_relay w) ip = Some (Connected p)"
      by (auto simp: answers_def)
  qed
qed


definition ipv6_rx :: rx_packet where
  "ipv6_rx = rx_new 0 (PooledSlice \<lparr>buffer = ect1_packet6, filled_len = 44\<rparr>)"

lemma ipv6_rx_deref: "rx_deref ipv6_rx = ect1_packet6"
  by (simp add: ipv6_rx_def rx_new_def rx_deref_def slice_deref_def buffer_deref_def ect1_packet6_def)

lemma ipv6_rx_slice:
  "\<exists>s d. inet_slice rfc (rx_deref ipv6_rx) = Inr (Ipv6Slice s d)"
proof -
  have "drop_bit 4 (0x60 :: u8) = 6" by code_simp
  then show ?thesis
    by (simp add: ipv6_rx_deref inet_slice_def rfc_simps rfc_sliced_def rfc_from_slice_def rfc_parse4_def
        rfc_parse6_def ect1_packet6_def)
qed


end
